theory Spec2Isabelle
  imports Main "HOL-Library.Sublist" "HOL-Library.AList"
begin

section \<open>The monitoring plugin (x-pack/plugins/monitoring/server/plugin.ts)\<close>

text \<open>
  A shallow embedding of the parts of \<^verbatim>\<open>plugin.ts\<close> that decide the behaviour of the
  version flag, the legacy request bridge, the legacy route shim, the legacy config
  wrapper and the plugin life cycle. Collaborators that live outside the file (the
  router, the response factory, the cluster client, the license service, the bulk
  uploader) are represented by the calls the plugin makes on them; the functions of the
  libraries Boom and lodash are parameters, except for the one lodash call whose path is
  fixed.
\<close>

subsection \<open>JavaScript values\<close>

text \<open>
  The values that flow through the untyped (\<^verbatim>\<open>any\<close>) parts of the plugin. Numbers are
  restricted to integers and a character stands for one code unit of a string. An object
  carries its own properties in insertion order; \<open>JError\<close> is an object that is an
  instance of \<^verbatim>\<open>Error\<close>. Functions and arrays are not represented, and neither is what
  the built-in prototypes add to a value (methods, and the \<^verbatim>\<open>name\<close> and \<^verbatim>\<open>message\<close> that
  an error inherits).
\<close>

datatype jsval =
    JUndefined
  | JNull
  | JBool bool
  | JNum int
  | JStr string
  | JObj "(string \<times> jsval) list"
  | JError "(string \<times> jsval) list"

text \<open>ToBoolean: what \<^verbatim>\<open>if (v)\<close>, \<^verbatim>\<open>v && w\<close> and \<^verbatim>\<open>v || w\<close> test.\<close>

fun truthy :: "jsval \<Rightarrow> bool" where
  "truthy JUndefined = False"
| "truthy JNull = False"
| "truthy (JBool b) = b"
| "truthy (JNum n) = (n \<noteq> 0)"
| "truthy (JStr s) = (s \<noteq> [])"
| "truthy (JObj kvs) = True"
| "truthy (JError kvs) = True"

text \<open>\<^verbatim>\<open>v == null\<close>: the two values on which a property access throws.\<close>

fun nullish :: "jsval \<Rightarrow> bool" where
  "nullish JUndefined = True"
| "nullish JNull = True"
| "nullish v = False"

fun is_object :: "jsval \<Rightarrow> bool" where
  "is_object (JObj kvs) = True"
| "is_object (JError kvs) = True"
| "is_object v = False"

text \<open>
  The index a property name denotes on a string: the name is the decimal writing of a
  number, without a sign and without a leading zero.
\<close>

definition is_digit :: "char \<Rightarrow> bool" where
  "is_digit c = (let n = (of_char c :: nat) in 48 \<le> n \<and> n \<le> 57)"

definition string_index :: "string \<Rightarrow> nat option" where
  "string_index k =
     (if k \<noteq> [] \<and> list_all is_digit k \<and> (length k = 1 \<or> hd k \<noteq> CHR ''0'')
      then Some (foldl (\<lambda>n c. 10 * n + ((of_char c :: nat) - 48)) 0 k)
      else None)"

text \<open>
  \<^verbatim>\<open>v[k]\<close> on a value that is not null or undefined: the property of an object; the
  length of a string and its characters; \<^verbatim>\<open>undefined\<close> for a missing property and for
  the other primitives.
\<close>

fun get_prop :: "jsval \<Rightarrow> string \<Rightarrow> jsval" where
  "get_prop (JObj kvs) k = (case map_of kvs k of Some v \<Rightarrow> v | None \<Rightarrow> JUndefined)"
| "get_prop (JError kvs) k = (case map_of kvs k of Some v \<Rightarrow> v | None \<Rightarrow> JUndefined)"
| "get_prop (JStr s) k =
     (if k = ''length'' then JNum (int (length s))
      else (case string_index k of
              Some i \<Rightarrow> if i < length s then JStr [s ! i] else JUndefined
            | None \<Rightarrow> JUndefined))"
| "get_prop v k = JUndefined"

text \<open>\<^verbatim>\<open>k in Object(v)\<close> for a value that is not null or undefined.\<close>

fun has_property :: "jsval \<Rightarrow> string \<Rightarrow> bool" where
  "has_property (JObj kvs) k = (map_of kvs k \<noteq> None)"
| "has_property (JError kvs) k = (map_of kvs k \<noteq> None)"
| "has_property (JStr s) k =
     (k = ''length'' \<or> (case string_index k of Some i \<Rightarrow> i < length s | None \<Rightarrow> False))"
| "has_property v k = False"

text \<open>
  \<^verbatim>\<open>v[k] = w\<close> on an object: an existing property keeps its place, a new one is added
  last. The plugin assigns to objects only (on a primitive the assignment throws, the
  module being in strict mode, and \<^verbatim>\<open>route\<close> below tests for that first); any other
  value is returned as it is.
\<close>

fun set_prop :: "jsval \<Rightarrow> string \<Rightarrow> jsval \<Rightarrow> jsval" where
  "set_prop (JObj kvs) k w = JObj (AList.update k w kvs)"
| "set_prop (JError kvs) k w = JError (AList.update k w kvs)"
| "set_prop v k w = v"

text \<open>\<^verbatim>\<open>a || b\<close> and \<^verbatim>\<open>a ?? b\<close> on values (the right operand has no effect here).\<close>

definition js_or :: "jsval \<Rightarrow> jsval \<Rightarrow> jsval" where
  "js_or a b = (if truthy a then a else b)"

definition js_nullish_coalesce :: "jsval \<Rightarrow> jsval \<Rightarrow> jsval" where
  "js_nullish_coalesce a b = (if nullish a then b else a)"

text \<open>
  What the plugin throws: a TypeError of the language, \<^verbatim>\<open>new Error(message)\<close>, and
  \<^verbatim>\<open>new Error('Unsupport API method: ' + method)\<close>, kept with the method value itself.
\<close>

datatype js_error =
    TypeError
  | Error string
  | UnsupportApiMethod jsval

subsection \<open>The version test\<close>

text \<open>
  \<^verbatim>\<open>const snapshotRegex = /-snapshot/i;\<close> and
  \<^verbatim>\<open>snapshot: snapshotRegex.test(this.initializerContext.env.packageInfo.version)\<close>.
  The pattern is a sequence of literal characters. With the flag \<^verbatim>\<open>i\<close> (and without
  \<^verbatim>\<open>u\<close>) two characters match when they agree after upper-casing; a character outside
  ASCII is never identified with an ASCII one. The expression has no \<^verbatim>\<open>g\<close> flag, so
  \<^verbatim>\<open>test\<close> searches from the start of the string every time.
\<close>

definition canonicalize :: "char \<Rightarrow> char" where
  "canonicalize c =
     (let n = (of_char c :: nat) in if 97 \<le> n \<and> n \<le> 122 then char_of (n - 32) else c)"

fun match_here :: "string \<Rightarrow> string \<Rightarrow> bool" where
  "match_here [] s = True"
| "match_here (p # ps) [] = False"
| "match_here (p # ps) (c # cs) = (canonicalize p = canonicalize c \<and> match_here ps cs)"

fun regex_test :: "string \<Rightarrow> string \<Rightarrow> bool" where
  "regex_test pat [] = match_here pat []"
| "regex_test pat (c # cs) = (match_here pat (c # cs) \<or> regex_test pat cs)"

definition snapshotRegex :: string where
  "snapshotRegex = ''-snapshot''"

definition kibanaStats_snapshot :: "string \<Rightarrow> bool" where
  "kibanaStats_snapshot version = regex_test snapshotRegex version"

text \<open>The reading of "in any letter case" used to state the property: ASCII lower-casing.\<close>

definition ascii_lower :: "char \<Rightarrow> char" where
  "ascii_lower c =
     (let n = (of_char c :: nat) in if 65 \<le> n \<and> n \<le> 90 then char_of (n + 32) else c)"

subsection \<open>The per-request cluster callers\<close>

text \<open>
  \<^verbatim>\<open>getCluster: (name) => ({ callWithRequest: async (_req, endpoint, params) => ... })\<close>.
  The call is issued on \<^verbatim>\<open>cluster\<close> (the monitoring cluster) or on
  \<^verbatim>\<open>this.legacyShimDependencies.esDataClient\<close>, scoped to the request \<^verbatim>\<open>req\<close> of the
  enclosing handler; the argument \<^verbatim>\<open>_req\<close> is not used.
\<close>

datatype es_client = MonitoringCluster | EsDataClient

record es_call =
  client :: es_client
  scoped_to :: jsval
  endpoint :: string
  params :: jsval

definition callWithRequest :: "jsval \<Rightarrow> string \<Rightarrow> jsval \<Rightarrow> string \<Rightarrow> jsval \<Rightarrow> es_call" where
  "callWithRequest req name unused_req ep ps =
     \<lparr>client = (if name = ''monitoring'' then MonitoringCluster else EsDataClient),
      scoped_to = req, endpoint = ep, params = ps\<rparr>"

subsection \<open>Strings\<close>

text \<open>
  \<^verbatim>\<open>s.includes(sub)\<close> and \<^verbatim>\<open>s.split(sep)\<close>. The split scans from the left, cuts at
  every occurrence of the separator that starts after the previous cut, and always ends
  with the remaining text; an empty separator cuts between all characters.
\<close>

fun js_includes :: "string \<Rightarrow> string \<Rightarrow> bool" where
  "js_includes [] sub = (sub = [])"
| "js_includes (c # cs) sub = (prefix sub (c # cs) \<or> js_includes cs sub)"

function split_at :: "string \<Rightarrow> string \<Rightarrow> string \<Rightarrow> string list" where
  "split_at sep cur [] = [cur]"
| "split_at sep cur (c # cs) =
     (if sep \<noteq> [] \<and> prefix sep (c # cs)
      then cur # split_at sep [] (drop (length sep) (c # cs))
      else split_at sep (cur @ [c]) cs)"
  by pat_completeness auto
termination
  by (relation "measure (\<lambda>(sep, cur, s). length s)") auto

definition js_split :: "string \<Rightarrow> string \<Rightarrow> string list" where
  "js_split s sep = (if sep = [] then map (\<lambda>c. [c]) s else split_at sep [] s)"

subsection \<open>The legacy config wrapper\<close>

text \<open>
  \<^verbatim>\<open>legacyConfigWrapper().get(_key)\<close>. The key is \<^verbatim>\<open>_key.split('monitoring.')[1]\<close> when
  \<^verbatim>\<open>_key\<close> includes \<^verbatim>\<open>monitoring.\<close>; an index past the end of the array reads
  \<^verbatim>\<open>undefined\<close>, which lodash and the comparison then treat as the text \<^verbatim>\<open>undefined\<close>.
  The functions \<^verbatim>\<open>has\<close> and \<^verbatim>\<open>get\<close> of lodash, a library outside the repository, are
  parameters: the wrapper hands them the stripped key and does nothing else with it.
\<close>

definition strip_key :: "string \<Rightarrow> string" where
  "strip_key k =
     (if js_includes k ''monitoring.''
      then (case js_split k ''monitoring.'' of a # b # rest \<Rightarrow> b | _ \<Rightarrow> ''undefined'')
      else k)"

definition unknown_key :: "string \<Rightarrow> js_error" where
  "unknown_key k = Error (''Unknown key '' @ [CHR 0x27] @ k @ [CHR 0x27])"

definition legacy_config_get ::
  "(jsval \<Rightarrow> string \<Rightarrow> bool) \<Rightarrow> (jsval \<Rightarrow> string \<Rightarrow> jsval) \<Rightarrow> jsval \<Rightarrow> jsval \<Rightarrow> string \<Rightarrow> string
     \<Rightarrow> js_error + jsval" where
  "legacy_config_get lodash_has lodash_get config legacyConfig instanceUuid k =
     (let key = strip_key k in
      if lodash_has config key then Inr (lodash_get config key)
      else if lodash_has legacyConfig key then Inr (lodash_get legacyConfig key)
      else if key = ''server.uuid'' then Inr (JStr instanceUuid)
      else Inl (unknown_key k))"

text \<open>
  The key as the wrapper is meant to compute it: what follows the first \<^verbatim>\<open>monitoring.\<close>,
  to the end of the key. It is the reference against which \<open>strip_key\<close> is compared.
\<close>

fun after_first :: "string \<Rightarrow> string \<Rightarrow> string" where
  "after_first sep [] = []"
| "after_first sep (c # cs) =
     (if prefix sep (c # cs) then drop (length sep) (c # cs) else after_first sep cs)"

definition stripped_prefix :: "string \<Rightarrow> string" where
  "stripped_prefix k = (if js_includes k ''monitoring.'' then after_first ''monitoring.'' k else k)"

subsection \<open>lodash \<^verbatim>\<open>get\<close> at the path \<^verbatim>\<open>config.validate\<close>\<close>

text \<open>
  \<^verbatim>\<open>get(object, 'config.validate', defaultValue)\<close>, the one lodash call of the plugin
  whose path is fixed. lodash takes the whole path as a single key when the object has a
  property of that very name, and otherwise follows the names \<^verbatim>\<open>config\<close> and \<^verbatim>\<open>validate\<close>
  for as long as the value at hand is not null or undefined (\<open>follow_path\<close> is the loop
  of \<^verbatim>\<open>baseGet\<close>, which answers \<^verbatim>\<open>undefined\<close> when the loop stops early or the path is
  empty); the default stands in for a result that is \<^verbatim>\<open>undefined\<close>.
\<close>

fun follow_path :: "jsval \<Rightarrow> string list \<Rightarrow> jsval" where
  "follow_path obj [] = obj"
| "follow_path obj (k # ks) =
     (if nullish obj then JUndefined else follow_path (get_prop obj k) ks)"

definition baseGet :: "jsval \<Rightarrow> string list \<Rightarrow> jsval" where
  "baseGet object path = (if path = [] then JUndefined else follow_path object path)"

definition lodash_get_config_validate :: "jsval \<Rightarrow> jsval \<Rightarrow> jsval" where
  "lodash_get_config_validate object dflt =
     (let result =
        (if nullish object then JUndefined
         else if has_property object ''config.validate''
              then baseGet object [''config.validate'']
              else baseGet object [''config'', ''validate''])
      in if result = JUndefined then dflt else result)"

subsection \<open>The legacy route shim\<close>

text \<open>
  \<^verbatim>\<open>route: (options) => { ... }\<close>. The router is represented by the list of
  registrations made on it, each with the options it received (the handler, the same
  for every route, is left out). The assignment \<^verbatim>\<open>validate.body = validate.payload\<close>
  writes to the object that \<^verbatim>\<open>get\<close> returned, so the change shows where that object
  sits in \<^verbatim>\<open>options\<close> as well as under \<^verbatim>\<open>options.validate\<close>. The module is in strict
  mode: reading \<^verbatim>\<open>method\<close> of null or undefined and assigning \<^verbatim>\<open>validate\<close> on a
  primitive both throw a TypeError.
\<close>

datatype router_call = RouterPost jsval | RouterGet jsval | RouterPut jsval

fun call_options :: "router_call \<Rightarrow> jsval" where
  "call_options (RouterPost opts) = opts"
| "call_options (RouterGet opts) = opts"
| "call_options (RouterPut opts) = opts"

definition route_validate :: "jsval \<Rightarrow> jsval" where
  "route_validate options =
     (let validate = lodash_get_config_validate options (JBool False) in
      if truthy validate \<and> truthy (get_prop validate ''payload'')
      then (let validate' = set_prop validate ''body'' (get_prop validate ''payload'');
                options' =
                  (if has_property options ''config.validate''
                   then set_prop options ''config.validate'' validate'
                   else set_prop options ''config''
                          (set_prop (get_prop options ''config'') ''validate'' validate'))
            in set_prop options' ''validate'' validate')
      else set_prop options ''validate'' validate)"

definition route :: "jsval \<Rightarrow> router_call list \<Rightarrow> js_error + router_call list" where
  "route options router =
     (if is_object options
      then (let method = get_prop options ''method'';
                options' = route_validate options in
            if method = JStr ''POST'' then Inr (router @ [RouterPost options'])
            else if method = JStr ''GET'' then Inr (router @ [RouterGet options'])
            else if method = JStr ''PUT'' then Inr (router @ [RouterPut options'])
            else Inl (UnsupportApiMethod method))
      else Inl TypeError)"

text \<open>
  The validation configuration as lodash reads it from the options of a route: the
  property named \<^verbatim>\<open>config.validate\<close> when the options have one, else
  \<^verbatim>\<open>options.config.validate\<close>, and \<^verbatim>\<open>false\<close> when that is \<^verbatim>\<open>undefined\<close>. It is the
  reference against which the value registered with the router is compared.
\<close>

definition validate_read :: "jsval \<Rightarrow> jsval" where
  "validate_read options =
     (let v = (if has_property options ''config.validate''
               then get_prop options ''config.validate''
               else get_prop (get_prop options ''config'') ''validate'')
      in if v = JUndefined then JBool False else v)"

subsection \<open>The legacy request bridge\<close>

text \<open>
  The \<^verbatim>\<open>catch\<close> block of the handler that \<^verbatim>\<open>route\<close> wraps around every legacy handler,
  and \<^verbatim>\<open>wrapError\<close>. The response factory is represented by the call made on it:
  \<^verbatim>\<open>res.ok\<close>, \<^verbatim>\<open>res.customError\<close> or \<^verbatim>\<open>res.internalError\<close>, with the options passed.
  Boom is a library outside the repository: \<^verbatim>\<open>Boom.isBoom\<close> and \<^verbatim>\<open>Boom.boomify\<close> are
  parameters, and \<^verbatim>\<open>boomify\<close> may throw. Reading a property of a thrown \<^verbatim>\<open>null\<close> or
  \<^verbatim>\<open>undefined\<close> throws a TypeError out of the \<^verbatim>\<open>catch\<close> block.
\<close>

record http_response_options =
  body :: jsval
  headers :: jsval
  statusCode :: jsval

datatype response =
    ResOk jsval
  | ResCustomError http_response_options
  | ResInternalError http_response_options

definition wrapError ::
  "(jsval \<Rightarrow> bool) \<Rightarrow> (jsval \<Rightarrow> jsval \<Rightarrow> js_error + jsval) \<Rightarrow> jsval
     \<Rightarrow> js_error + http_response_options" where
  "wrapError isBoom boomify error =
     (if nullish error then Inl TypeError
      else
        let options = JObj [(''statusCode'',
              js_nullish_coalesce (get_prop error ''statusCode'') (JNum 500))]
        in case (if isBoom error then Inr error else boomify error options) of
             Inl e \<Rightarrow> Inl e
           | Inr boom \<Rightarrow>
               if nullish boom \<or> nullish (get_prop boom ''output'') then Inl TypeError
               else Inr \<lparr>body = boom,
                         headers = get_prop (get_prop boom ''output'') ''headers'',
                         statusCode = get_prop (get_prop boom ''output'') ''statusCode''\<rparr>)"

text \<open>\<^verbatim>\<open>err.output?.statusCode\<close>, for \<^verbatim>\<open>err\<close> not null or undefined.\<close>

definition output_statusCode :: "jsval \<Rightarrow> jsval" where
  "output_statusCode err =
     (let out = get_prop err ''output'' in
      if nullish out then JUndefined else get_prop out ''statusCode'')"

text \<open>\<^verbatim>\<open>err.output?.statusCode || err.statusCode || err.status || 500\<close>.\<close>

definition derive_status :: "jsval \<Rightarrow> jsval" where
  "derive_status err =
     js_or (js_or (js_or (output_statusCode err) (get_prop err ''statusCode''))
                  (get_prop err ''status''))
           (JNum 500)"

definition handler_catch ::
  "(jsval \<Rightarrow> bool) \<Rightarrow> (jsval \<Rightarrow> jsval \<Rightarrow> js_error + jsval) \<Rightarrow> jsval
     \<Rightarrow> js_error + response" where
  "handler_catch isBoom boomify err =
     (if nullish err then Inl TypeError
      else
        let status = derive_status err in
        if isBoom err \<or> status \<noteq> JNum 500
        then Inr (ResCustomError \<lparr>body = err, headers = JUndefined, statusCode = status\<rparr>)
        else (case wrapError isBoom boomify err of
                Inl e \<Rightarrow> Inl e
              | Inr options \<Rightarrow> Inr (ResInternalError options)))"

text \<open>
  The \<^verbatim>\<open>try\<close> statement as a whole, on the outcome of \<^verbatim>\<open>await options.handler(legacyRequest)\<close>:
  the value it threw (\<open>Inl\<close>) or the value it returned (\<open>Inr\<close>).
\<close>

definition bridge_respond ::
  "(jsval \<Rightarrow> bool) \<Rightarrow> (jsval \<Rightarrow> jsval \<Rightarrow> js_error + jsval) \<Rightarrow> jsval + jsval
     \<Rightarrow> js_error + response" where
  "bridge_respond isBoom boomify outcome =
     (case outcome of
        Inr result \<Rightarrow> Inr (ResOk result)
      | Inl err \<Rightarrow> handler_catch isBoom boomify err)"

text \<open>
  Boom on the values of the model, used to run the bridge on concrete errors.
  \<^verbatim>\<open>Boom.isBoom(err)\<close> is \<^verbatim>\<open>err instanceof Error && !!err.isBoom\<close>.
  \<^verbatim>\<open>Boom.boomify(err, options)\<close>, called with options that hold a \<^verbatim>\<open>statusCode\<close> only,
  throws for a value that is not an instance of \<^verbatim>\<open>Error\<close>; it returns a Boom error
  unchanged when the options give no status code; otherwise it takes
  \<^verbatim>\<open>options.statusCode || 500\<close> as the status, throws unless that is a number from 400
  up, and returns the same error marked \<^verbatim>\<open>isBoom\<close>, with an \<^verbatim>\<open>output\<close> of that status
  code and empty headers. Of what the library adds to the error, \<^verbatim>\<open>isBoom\<close> and these
  two parts of \<^verbatim>\<open>output\<close> are all that \<^verbatim>\<open>wrapError\<close> and \<^verbatim>\<open>isBoom\<close> read; the rest
  (\<^verbatim>\<open>output.payload\<close>, \<^verbatim>\<open>isServer\<close>, \<^verbatim>\<open>data\<close>, \<^verbatim>\<open>reformat\<close>) is left out. The
  error's own message stays as it is (the library fills in an empty one), and a status
  that is not a number is refused (the library first parses a text for a number).
\<close>

definition boom_isBoom :: "jsval \<Rightarrow> bool" where
  "boom_isBoom err = (case err of JError kvs \<Rightarrow> truthy (get_prop err ''isBoom'') | _ \<Rightarrow> False)"

definition boom_initialize :: "jsval \<Rightarrow> jsval \<Rightarrow> js_error + jsval" where
  "boom_initialize err status =
     (case status of
        JNum n \<Rightarrow>
          if 400 \<le> n
          then Inr (set_prop (set_prop err ''isBoom'' (JBool True)) ''output''
                     (JObj [(''statusCode'', JNum n), (''headers'', JObj [])]))
          else Inl (Error ''First argument must be a number (400+)'')
      | _ \<Rightarrow> Inl (Error ''First argument must be a number (400+)''))"

definition boom_boomify :: "jsval \<Rightarrow> jsval \<Rightarrow> js_error + jsval" where
  "boom_boomify err options =
     (case err of
        JError kvs \<Rightarrow>
          if \<not> truthy (get_prop err ''isBoom'')
          then boom_initialize err (js_or (get_prop options ''statusCode'') (JNum 500))
          else if \<not> truthy (get_prop options ''statusCode'') then Inr err
          else boom_initialize err
                 (js_or (get_prop options ''statusCode'')
                        (get_prop (get_prop err ''output'') ''statusCode''))
      | _ \<Rightarrow> Inl (Error ''Cannot wrap non-Error object''))"

subsection \<open>The plugin and its life cycle\<close>

text \<open>
  The fields of the \<^verbatim>\<open>Plugin\<close> class that \<^verbatim>\<open>setup\<close>, \<^verbatim>\<open>start\<close> and \<^verbatim>\<open>stop\<close> read and
  write. The cluster client and the license service are objects of other modules; each
  is represented by the number of times the plugin has called its \<^verbatim>\<open>close()\<close> or
  \<^verbatim>\<open>stop()\<close>. A field declared as \<^verbatim>\<open>{} as T\<close> holds an empty object until \<^verbatim>\<open>setup\<close>
  assigns it: it is truthy, and calling a method on it throws a TypeError. No statement
  of the file makes such a field falsy; the guard of \<^verbatim>\<open>stop\<close> is modelled all the same.
\<close>

record cluster_client =
  close_calls :: nat

record license_service =
  stop_calls :: nat

datatype 'a field = Falsy | EmptyObject | Object 'a

record ('es, 'so) plugin =
  cluster :: "cluster_client field"
  licenseService :: "license_service field"
  telemetryElasticsearchClient :: "'es option"
  telemetrySavedObjectsService :: "'so option"

definition new_plugin :: "('es, 'so) plugin" where
  "new_plugin =
     \<lparr>cluster = EmptyObject, licenseService = EmptyObject,
      telemetryElasticsearchClient = None, telemetrySavedObjectsService = None\<rparr>"

text \<open>\<^verbatim>\<open>start({ elasticsearch, savedObjects })\<close>.\<close>

record ('es, 'so) core_start =
  elasticsearch_client :: 'es
  savedObjects :: 'so

definition start :: "('es, 'so) core_start \<Rightarrow> ('es, 'so) plugin \<Rightarrow> ('es, 'so) plugin" where
  "start core p =
     p\<lparr>telemetryElasticsearchClient := Some (elasticsearch_client core),
       telemetrySavedObjectsService := Some (savedObjects core)\<rparr>"

text \<open>
  \<^verbatim>\<open>stop()\<close>: the error thrown, if any, and the plugin afterwards. A TypeError from the
  first call leaves the second statement unexecuted.
\<close>

definition stop :: "('es, 'so) plugin \<Rightarrow> js_error option \<times> ('es, 'so) plugin" where
  "stop p =
     (case cluster p of
        EmptyObject \<Rightarrow> (Some TypeError, p)
      | c \<Rightarrow>
          (let p1 = (case c of
                       Object h \<Rightarrow> p\<lparr>cluster := Object (h\<lparr>close_calls := Suc (close_calls h)\<rparr>)\<rparr>
                     | _ \<Rightarrow> p)
           in case licenseService p1 of
                EmptyObject \<Rightarrow> (Some TypeError, p1)
              | Object l \<Rightarrow>
                  (None, p1\<lparr>licenseService := Object (l\<lparr>stop_calls := Suc (stop_calls l)\<rparr>)\<rparr>)
              | Falsy \<Rightarrow> (None, p1)))"

text \<open>The plugin after \<open>n\<close> calls of \<^verbatim>\<open>stop()\<close>, whatever they throw.\<close>

definition stop_times :: "nat \<Rightarrow> ('es, 'so) plugin \<Rightarrow> ('es, 'so) plugin" where
  "stop_times n p = ((\<lambda>q. snd (stop q)) ^^ n) p"

subsection \<open>Setup: telemetry registration and Kibana collection\<close>

text \<open>
  What \<^verbatim>\<open>setup\<close> receives, as far as the modelled statements read it: whether
  \<^verbatim>\<open>plugins.telemetryCollectionManager\<close> and \<^verbatim>\<open>plugins.licensing\<close> are present, and the
  configuration values \<^verbatim>\<open>kibana.collection.enabled\<close> and \<^verbatim>\<open>ui.max_bucket_size\<close>.
\<close>

record setup_input =
  has_telemetryCollectionManager :: bool
  has_licensing :: bool
  kibanaCollectionEnabled :: bool
  max_bucket_size :: jsval

text \<open>
  The argument of \<^verbatim>\<open>registerMonitoringCollection\<close>. \<^verbatim>\<open>esCluster\<close> is the value of
  \<^verbatim>\<open>this.cluster\<close> when \<^verbatim>\<open>setup\<close> runs; the two getters are closures over \<^verbatim>\<open>this\<close>,
  hence functions of the plugin's state at the time they are called.
\<close>

record ('es, 'so) monitoring_collection =
  esCluster :: "cluster_client field"
  esClientGetter :: "('es, 'so) plugin \<Rightarrow> 'es option"
  soServiceGetter :: "('es, 'so) plugin \<Rightarrow> 'so option"
  maxBucketSize :: jsval

datatype log_entry = LogWarn string | LogInfo string

text \<open>
  A license as its \<^verbatim>\<open>getFeature\<close> method; the calls the license subscriber makes on the
  bulk uploader.
\<close>

record feature =
  isAvailable :: bool
  isEnabled :: bool

type_synonym license = "string \<Rightarrow> feature option"

datatype uploader_call = Start | HandleNotEnabled

definition monitoringBulkEnabled :: "license \<Rightarrow> bool" where
  "monitoringBulkEnabled license =
     (case license ''monitoring'' of
        None \<Rightarrow> False
      | Some mainMonitoring \<Rightarrow> isAvailable mainMonitoring \<and> isEnabled mainMonitoring)"

definition license_subscriber :: "license \<Rightarrow> uploader_call" where
  "license_subscriber license =
     (if monitoringBulkEnabled license then Start else HandleNotEnabled)"

record ('es, 'so) setup_result =
  plugin_after :: "('es, 'so) plugin"
  registered_collection :: "('es, 'so) monitoring_collection option"
  logged :: "log_entry list"
  subscribed :: bool

definition plugin_setup :: "setup_input \<Rightarrow> ('es, 'so) plugin \<Rightarrow> ('es, 'so) setup_result" where
  "plugin_setup inp p =
     (let p1 = p\<lparr>cluster := Object \<lparr>close_calls = 0\<rparr>\<rparr>;
          p2 = p1\<lparr>licenseService := Object \<lparr>stop_calls = 0\<rparr>\<rparr>;
          registration =
            (if has_telemetryCollectionManager inp
             then Some \<lparr>esCluster = cluster p2,
                        esClientGetter = (\<lambda>this. telemetryElasticsearchClient this),
                        soServiceGetter = (\<lambda>this. telemetrySavedObjectsService this),
                        maxBucketSize = max_bucket_size inp\<rparr>
             else None)
      in if kibanaCollectionEnabled inp
         then (if has_licensing inp
               then \<lparr>plugin_after = p2, registered_collection = registration,
                     logged = [], subscribed = True\<rparr>
               else \<lparr>plugin_after = p2, registered_collection = registration,
                     logged = [LogWarn ''Internal collection for Kibana monitoring is disabled due to missing license information.''],
                     subscribed = False\<rparr>)
         else \<lparr>plugin_after = p2, registered_collection = registration,
               logged = [LogInfo ''Internal collection for Kibana monitoring is disabled per configuration.''],
               subscribed = False\<rparr>)"

text \<open>
  The calls made on the bulk uploader while \<^verbatim>\<open>license$\<close> emits the given licenses, in
  order: the subscriber runs once per emission when \<^verbatim>\<open>setup\<close> subscribed, and nothing else
  in the file calls \<^verbatim>\<open>start\<close> or \<^verbatim>\<open>handleNotEnabled\<close>.
\<close>

definition uploader_calls :: "('es, 'so) setup_result \<Rightarrow> license list \<Rightarrow> uploader_call list" where
  "uploader_calls r emissions = (if subscribed r then map license_subscriber emissions else [])"

text \<open>
  Modelled from the spec: the bulk uploader returned by \<^verbatim>\<open>initBulkUploader\<close>
  (\<^verbatim>\<open>./kibana_monitoring\<close>) is not among the sources. The scheduler is \<open>Stopped\<close>
  initially; \<^verbatim>\<open>start\<close> moves it to \<open>Running\<close> and starts the periodic timer, and is a
  no-op when it is already running; \<^verbatim>\<open>handleNotEnabled\<close> forces it to \<open>Stopped\<close>, which
  cancels the timer.
\<close>

datatype scheduler_state = Stopped | Running

record bulk_uploader =
  state :: scheduler_state
  active_timers :: nat
  timers_started :: nat

definition initBulkUploader :: bulk_uploader where
  "initBulkUploader = \<lparr>state = Stopped, active_timers = 0, timers_started = 0\<rparr>"

fun uploader_step :: "bulk_uploader \<Rightarrow> uploader_call \<Rightarrow> bulk_uploader" where
  "uploader_step u Start =
     (if state u = Running then u
      else u\<lparr>state := Running, active_timers := Suc (active_timers u),
             timers_started := Suc (timers_started u)\<rparr>)"
| "uploader_step u HandleNotEnabled = u\<lparr>state := Stopped, active_timers := 0\<rparr>"

definition run_uploader :: "uploader_call list \<Rightarrow> bulk_uploader" where
  "run_uploader calls = foldl uploader_step initBulkUploader calls"

text \<open>
  A license whose \<^verbatim>\<open>monitoring\<close> feature has the given \<^verbatim>\<open>isAvailable\<close> and
  \<^verbatim>\<open>isEnabled\<close> flags and that knows no other feature; used to run the subscriber on
  concrete emissions.
\<close>

definition license_with :: "bool \<Rightarrow> bool \<Rightarrow> license" where
  "license_with a e =
     (\<lambda>n. if n = ''monitoring'' then Some \<lparr>isAvailable = a, isEnabled = e\<rparr> else None)"

section \<open>Properties\<close>

subsection \<open>Case folding\<close>

lemma of_char_lt: "(of_char (c::char) :: nat) < 256"
proof -
  have "(of_char c :: nat) mod 256 = of_char c" by (rule of_char_mod_256)
  then show ?thesis by (metis mod_less_divisor zero_less_numeral)
qed

lemma of_char_canonicalize:
  "(of_char (canonicalize c) :: nat) =
     (if 97 \<le> (of_char c :: nat) \<and> (of_char c :: nat) \<le> 122 then of_char c - 32 else of_char c)"
proof -
  have "((of_char c :: nat) - 32) mod 256 = of_char c - 32"
    using of_char_lt [of c] by (intro mod_less) arith
  then show ?thesis by (simp add: canonicalize_def Let_def)
qed

lemma of_char_ascii_lower:
  "(of_char (ascii_lower c) :: nat) =
     (if 65 \<le> (of_char c :: nat) \<and> (of_char c :: nat) \<le> 90 then of_char c + 32 else of_char c)"
proof -
  have "65 \<le> (of_char c :: nat) \<and> (of_char c :: nat) \<le> 90 \<Longrightarrow>
        ((of_char c :: nat) + 32) mod 256 = of_char c + 32"
    by (intro mod_less) arith
  then show ?thesis by (simp add: ascii_lower_def Let_def)
qed

lemma case_fold_arith:
  fixes m n :: nat
  shows "((if 97 \<le> m \<and> m \<le> 122 then m - 32 else m) = (if 97 \<le> n \<and> n \<le> 122 then n - 32 else n))
      \<longleftrightarrow> ((if 65 \<le> m \<and> m \<le> 90 then m + 32 else m) = (if 65 \<le> n \<and> n \<le> 90 then n + 32 else n))"
  by (simp split: if_splits) arith

lemma canonicalize_eq_iff:
  "canonicalize a = canonicalize b \<longleftrightarrow> ascii_lower a = ascii_lower b"
proof -
  have "canonicalize a = canonicalize b \<longleftrightarrow>
        (of_char (canonicalize a) :: nat) = of_char (canonicalize b)" by simp
  also have "\<dots> \<longleftrightarrow> (of_char (ascii_lower a) :: nat) = of_char (ascii_lower b)"
    unfolding of_char_canonicalize of_char_ascii_lower by (rule case_fold_arith)
  also have "\<dots> \<longleftrightarrow> ascii_lower a = ascii_lower b" by simp
  finally show ?thesis .
qed

lemma match_here_iff:
  "match_here pat s \<longleftrightarrow>
     (\<exists>mid post. s = mid @ post \<and> map ascii_lower mid = map ascii_lower pat)"
proof (induction pat s rule: match_here.induct)
  case (1 s)
  then show ?case by simp
next
  case (2 p ps)
  then show ?case by simp
next
  case (3 p ps c cs)
  show ?case
  proof
    assume "match_here (p # ps) (c # cs)"
    then have pc: "ascii_lower p = ascii_lower c" and "match_here ps cs"
      by (simp_all add: canonicalize_eq_iff)
    then obtain mid post where "cs = mid @ post" "map ascii_lower mid = map ascii_lower ps"
      using 3 by blast
    then have "c # cs = (c # mid) @ post \<and> map ascii_lower (c # mid) = map ascii_lower (p # ps)"
      using pc by simp
    then show "\<exists>mid post. c # cs = mid @ post \<and> map ascii_lower mid = map ascii_lower (p # ps)"
      by blast
  next
    assume "\<exists>mid post. c # cs = mid @ post \<and> map ascii_lower mid = map ascii_lower (p # ps)"
    then obtain mid post
      where m: "c # cs = mid @ post" "map ascii_lower mid = map ascii_lower (p # ps)"
      by blast
    then obtain m' where mid: "mid = c # m'" by (cases mid) auto
    with m have "cs = m' @ post" "map ascii_lower m' = map ascii_lower ps"
      "ascii_lower c = ascii_lower p"
      by simp_all
    then show "match_here (p # ps) (c # cs)" using 3 by (auto simp: canonicalize_eq_iff)
  qed
qed

lemma regex_test_iff:
  "regex_test pat s \<longleftrightarrow>
     (\<exists>pre mid post. s = pre @ mid @ post \<and> map ascii_lower mid = map ascii_lower pat)"
proof (induction s)
  case Nil
  then show ?case by (simp add: match_here_iff)
next
  case (Cons c cs)
  show ?case
  proof
    assume "regex_test pat (c # cs)"
    then consider "match_here pat (c # cs)" | "regex_test pat cs" by auto
    then show "\<exists>pre mid post. c # cs = pre @ mid @ post \<and> map ascii_lower mid = map ascii_lower pat"
    proof cases
      case 1
      then obtain mid post
        where "c # cs = [] @ mid @ post" "map ascii_lower mid = map ascii_lower pat"
        by (auto simp: match_here_iff)
      then show ?thesis by blast
    next
      case 2
      then obtain pre mid post
        where "cs = pre @ mid @ post" and mid: "map ascii_lower mid = map ascii_lower pat"
        using Cons by blast
      then have "c # cs = (c # pre) @ mid @ post" by simp
      then show ?thesis using mid by blast
    qed
  next
    assume "\<exists>pre mid post. c # cs = pre @ mid @ post \<and> map ascii_lower mid = map ascii_lower pat"
    then obtain pre mid post where s: "c # cs = pre @ mid @ post"
      and m: "map ascii_lower mid = map ascii_lower pat" by blast
    show "regex_test pat (c # cs)"
    proof (cases pre)
      case Nil
      with s m have "match_here pat (c # cs)" by (auto simp: match_here_iff)
      then show ?thesis by simp
    next
      case (Cons p pre')
      with s have "cs = pre' @ mid @ post" by simp
      with m have "regex_test pat cs" using Cons.IH by blast
      then show ?thesis by simp
    qed
  qed
qed

lemma ascii_lower_snapshotRegex: "map ascii_lower snapshotRegex = ''-snapshot''"
  unfolding snapshotRegex_def by code_simp

subsection \<open>C6: the snapshot flag\<close>

text \<open>
  C6. The \<^verbatim>\<open>kibanaStats.snapshot\<close> flag handed to the bulk uploader is true exactly when
  the package version contains a run of characters that reads \<^verbatim>\<open>-snapshot\<close> once its
  letters are lower-cased; version \<^verbatim>\<open>7.10.0-SNAPSHOT\<close> gives true and \<^verbatim>\<open>7.10.0\<close> gives
  false.
\<close>

theorem snapshot_flag_case_insensitive_substring:
  "(kibanaStats_snapshot version \<longleftrightarrow>
      (\<exists>pre mid post. version = pre @ mid @ post \<and> map ascii_lower mid = ''-snapshot''))
   \<and> kibanaStats_snapshot ''7.10.0-SNAPSHOT''
   \<and> \<not> kibanaStats_snapshot ''7.10.0''"
proof -
  have "kibanaStats_snapshot version \<longleftrightarrow>
      (\<exists>pre mid post. version = pre @ mid @ post \<and> map ascii_lower mid = ''-snapshot'')"
    by (simp add: kibanaStats_snapshot_def regex_test_iff ascii_lower_snapshotRegex)
  moreover have "kibanaStats_snapshot ''7.10.0-SNAPSHOT''"
    by code_simp
  moreover have "\<not> kibanaStats_snapshot ''7.10.0''"
    by code_simp
  ultimately show ?thesis by blast
qed

subsection \<open>C3: cluster selection by name\<close>

text \<open>
  C3, as amended. For every request and every cluster name, the caller returned by
  \<^verbatim>\<open>getCluster(name)\<close> issues the call on the monitoring cluster when the name is
  \<^verbatim>\<open>monitoring\<close> and on the data cluster for every other name, scoped to the request
  being handled and with the endpoint and parameters it was given; no name makes it fail.
\<close>

theorem getCluster_routes_by_name:
  "callWithRequest req name r ep ps =
     \<lparr>client = (if name = ''monitoring'' then MonitoringCluster else EsDataClient),
      scoped_to = req, endpoint = ep, params = ps\<rparr>
   \<and> client (callWithRequest req ''monitoring'' r ep ps) = MonitoringCluster
   \<and> (client (callWithRequest req name r ep ps) = EsDataClient \<longleftrightarrow> name \<noteq> ''monitoring'')"
  by (simp add: callWithRequest_def)

text \<open>
  The claim as stated asks for a configuration error on an unrecognised name. The name
  \<^verbatim>\<open>unknown-name\<close> is routed to the data cluster.
\<close>

theorem getCluster_unknown_name_defaults:
  "client (callWithRequest (JObj []) ''unknown-name'' JUndefined ''search'' (JObj []))
     = EsDataClient"
  by (simp add: callWithRequest_def)

subsection \<open>Objects and paths\<close>

lemma get_prop_set_prop:
  "get_prop (set_prop (JObj kvs) k w) k' = (if k' = k then w else get_prop (JObj kvs) k')"
  by (simp add: update_conv')

lemma get_prop_set_prop_object:
  "is_object v \<Longrightarrow> get_prop (set_prop v k w) k' = (if k' = k then w else get_prop v k')"
  by (cases v) (simp_all add: update_conv')

lemma set_prop_is_object: "is_object v \<Longrightarrow> is_object (set_prop v k w)"
  by (cases v) simp_all

lemma set_prop_obj: "\<exists>kvs'. set_prop (JObj kvs) k w = JObj kvs'"
  by simp

lemma string_index_payload: "string_index ''payload'' = None"
  by code_simp

lemma truthy_payload_object: "truthy (get_prop v ''payload'') \<Longrightarrow> is_object v"
  by (cases v) (simp_all add: string_index_payload)

lemma get_prop_nullish: "nullish v \<Longrightarrow> get_prop v k = JUndefined"
  by (cases v) simp_all

lemma lodash_get_config_validate_read:
  "lodash_get_config_validate (JObj kvs) (JBool False) = validate_read (JObj kvs)"
  by (simp add: lodash_get_config_validate_def validate_read_def baseGet_def Let_def
      get_prop_nullish del: get_prop.simps has_property.simps)

subsection \<open>The validation configuration of a route\<close>

lemma route_validate_plain:
  assumes "\<not> (truthy (validate_read (JObj kvs)) \<and>
             truthy (get_prop (validate_read (JObj kvs)) ''payload''))"
  shows "get_prop (route_validate (JObj kvs)) ''validate'' = validate_read (JObj kvs)"
proof -
  have "route_validate (JObj kvs) = set_prop (JObj kvs) ''validate'' (validate_read (JObj kvs))"
    using assms
    by (auto simp add: route_validate_def lodash_get_config_validate_read Let_def
        simp del: get_prop.simps set_prop.simps has_property.simps)
  then show ?thesis by (simp add: get_prop_set_prop del: get_prop.simps set_prop.simps)
qed

lemma route_validate_payload:
  assumes "truthy (validate_read (JObj kvs))"
    and "truthy (get_prop (validate_read (JObj kvs)) ''payload'')"
  shows "get_prop (get_prop (route_validate (JObj kvs)) ''validate'') k =
           (if k = ''body'' then get_prop (validate_read (JObj kvs)) ''payload''
            else get_prop (validate_read (JObj kvs)) k)"
proof -
  let ?v = "validate_read (JObj kvs)"
  let ?v' = "set_prop ?v ''body'' (get_prop ?v ''payload'')"
  have obj: "is_object ?v" using assms(2) by (rule truthy_payload_object)
  obtain opts where "route_validate (JObj kvs) = set_prop opts ''validate'' ?v'"
    and "is_object opts"
  proof (cases "has_property (JObj kvs) ''config.validate''")
    case True
    have "route_validate (JObj kvs) =
        set_prop (set_prop (JObj kvs) ''config.validate'' ?v') ''validate'' ?v'"
      using assms True
      by (simp add: route_validate_def lodash_get_config_validate_read Let_def
          del: get_prop.simps set_prop.simps has_property.simps)
    moreover have "is_object (set_prop (JObj kvs) ''config.validate'' ?v')" by simp
    ultimately show ?thesis using that by blast
  next
    case False
    have "route_validate (JObj kvs) =
        set_prop (set_prop (JObj kvs) ''config''
            (set_prop (get_prop (JObj kvs) ''config'') ''validate'' ?v')) ''validate'' ?v'"
      using assms False
      by (simp add: route_validate_def lodash_get_config_validate_read Let_def
          del: get_prop.simps set_prop.simps has_property.simps)
    moreover have "is_object (set_prop (JObj kvs) ''config''
            (set_prop (get_prop (JObj kvs) ''config'') ''validate'' ?v'))" by simp
    ultimately show ?thesis using that by blast
  qed
  then have "get_prop (route_validate (JObj kvs)) ''validate'' = ?v'"
    by (simp add: get_prop_set_prop_object del: get_prop.simps set_prop.simps)
  then show ?thesis
    using obj by (simp add: get_prop_set_prop_object del: get_prop.simps set_prop.simps)
qed

lemma route_registers:
  assumes "route (JObj kvs) router = Inr router'"
  shows "\<exists>call. router' = router @ [call] \<and> call_options call = route_validate (JObj kvs)"
  using assms
  by (auto simp add: route_def Let_def simp del: get_prop.simps split: if_splits)

subsection \<open>C4: method dispatch of the route shim\<close>

text \<open>
  C4. For every options object handed to \<^verbatim>\<open>route\<close>: when \<^verbatim>\<open>options.method\<close> is
  \<^verbatim>\<open>POST\<close>, \<^verbatim>\<open>GET\<close> or \<^verbatim>\<open>PUT\<close> the route is registered with the router method of
  that name (one registration, added to those made before); for every other method
  value \<^verbatim>\<open>route\<close> itself throws the unsupported-method error and nothing is registered.
  Registering with method \<^verbatim>\<open>DELETE\<close> throws.
\<close>

theorem route_method_dispatch:
  "(get_prop (JObj kvs) ''method'' = JStr ''POST'' \<longrightarrow>
      route (JObj kvs) router = Inr (router @ [RouterPost (route_validate (JObj kvs))]))
   \<and> (get_prop (JObj kvs) ''method'' = JStr ''GET'' \<longrightarrow>
      route (JObj kvs) router = Inr (router @ [RouterGet (route_validate (JObj kvs))]))
   \<and> (get_prop (JObj kvs) ''method'' = JStr ''PUT'' \<longrightarrow>
      route (JObj kvs) router = Inr (router @ [RouterPut (route_validate (JObj kvs))]))
   \<and> (get_prop (JObj kvs) ''method'' \<notin> {JStr ''POST'', JStr ''GET'', JStr ''PUT''} \<longrightarrow>
      route (JObj kvs) router = Inl (UnsupportApiMethod (get_prop (JObj kvs) ''method'')))
   \<and> route (JObj [(''method'', JStr ''DELETE''), (''path'', JStr ''/api/monitoring/v1/x'')]) router
        = Inl (UnsupportApiMethod (JStr ''DELETE''))"
proof -
  have "route (JObj [(''method'', JStr ''DELETE''), (''path'', JStr ''/api/monitoring/v1/x'')]) router
        = Inl (UnsupportApiMethod (JStr ''DELETE''))"
    by (simp add: route_def)
  then show ?thesis
    by (simp add: route_def Let_def del: get_prop.simps)
qed

theorem route_method_dispatch_witness:
  "route (JObj [(''method'', JStr ''POST'')]) [] =
      Inr [RouterPost (route_validate (JObj [(''method'', JStr ''POST'')]))]
   \<and> route (JObj [(''method'', JStr ''GET'')]) [] =
      Inr [RouterGet (route_validate (JObj [(''method'', JStr ''GET'')]))]
   \<and> route (JObj [(''method'', JStr ''PUT'')]) [] =
      Inr [RouterPut (route_validate (JObj [(''method'', JStr ''PUT'')]))]
   \<and> route (JObj [(''method'', JStr ''get'')]) [] = Inl (UnsupportApiMethod (JStr ''get''))
   \<and> route (JObj []) [] = Inl (UnsupportApiMethod JUndefined)"
  using route_method_dispatch [of "[(''method'', JStr ''POST'')]" "[]"]
    route_method_dispatch [of "[(''method'', JStr ''GET'')]" "[]"]
    route_method_dispatch [of "[(''method'', JStr ''PUT'')]" "[]"]
    route_method_dispatch [of "[(''method'', JStr ''get'')]" "[]"]
    route_method_dispatch [of "[]" "[]"]
  by simp

subsection \<open>C10: the validation configuration handed to the router\<close>

text \<open>
  C10, as amended. Whenever \<^verbatim>\<open>route\<close> registers a route, the options the router
  receives carry under \<^verbatim>\<open>validate\<close> the value that lodash \<^verbatim>\<open>get\<close> reads at the path
  \<^verbatim>\<open>config.validate\<close>: the options' property of that very name when they have one,
  otherwise \<^verbatim>\<open>options.config.validate\<close>, and \<^verbatim>\<open>false\<close> when that is \<^verbatim>\<open>undefined\<close>. So a
  route declared with neither is registered with validation disabled. When the value
  read is truthy with a truthy \<^verbatim>\<open>payload\<close>, the registered value is that object with
  \<^verbatim>\<open>body\<close> set to the payload validator and every other property (the payload among
  them) as it was.
\<close>

theorem route_assigns_validate:
  assumes "route (JObj kvs) router = Inr router'"
  shows "\<exists>call. router' = router @ [call] \<and>
     (\<not> has_property (JObj kvs) ''config.validate'' \<and>
      get_prop (get_prop (JObj kvs) ''config'') ''validate'' = JUndefined \<longrightarrow>
        get_prop (call_options call) ''validate'' = JBool False) \<and>
     (truthy (validate_read (JObj kvs)) \<and>
      truthy (get_prop (validate_read (JObj kvs)) ''payload'') \<longrightarrow>
        get_prop (get_prop (call_options call) ''validate'') ''body'' =
          get_prop (validate_read (JObj kvs)) ''payload'' \<and>
        (\<forall>k. k \<noteq> ''body'' \<longrightarrow>
          get_prop (get_prop (call_options call) ''validate'') k =
            get_prop (validate_read (JObj kvs)) k)) \<and>
     (\<not> (truthy (validate_read (JObj kvs)) \<and>
         truthy (get_prop (validate_read (JObj kvs)) ''payload'')) \<longrightarrow>
        get_prop (call_options call) ''validate'' = validate_read (JObj kvs))"
proof -
  obtain call where call: "router' = router @ [call]"
    "call_options call = route_validate (JObj kvs)"
    using route_registers [OF assms] by blast
  have absent: "get_prop (call_options call) ''validate'' = JBool False"
    if "\<not> has_property (JObj kvs) ''config.validate''"
      and "get_prop (get_prop (JObj kvs) ''config'') ''validate'' = JUndefined"
  proof -
    from that have v: "validate_read (JObj kvs) = JBool False"
      by (simp add: validate_read_def del: get_prop.simps has_property.simps)
    then show ?thesis
      using route_validate_plain [of kvs] call(2) by simp
  qed
  show ?thesis
    using call absent route_validate_plain [of kvs] route_validate_payload [of kvs]
    by (intro exI [of _ call]) (simp del: get_prop.simps has_property.simps)
qed

theorem route_assigns_validate_witness:
  "route (JObj [(''method'', JStr ''POST''),
        (''config'', JObj [(''validate'', JObj [(''payload'', JStr ''schema'')])])]) []
     = Inr [RouterPost (JObj [(''method'', JStr ''POST''),
        (''config'', JObj [(''validate'',
            JObj [(''payload'', JStr ''schema''), (''body'', JStr ''schema'')])]),
        (''validate'', JObj [(''payload'', JStr ''schema''), (''body'', JStr ''schema'')])])]
   \<and> route (JObj [(''method'', JStr ''GET'')]) []
     = Inr [RouterGet (JObj [(''method'', JStr ''GET''), (''validate'', JBool False)])]"
proof -
  have a: "route (JObj [(''method'', JStr ''POST''),
        (''config'', JObj [(''validate'', JObj [(''payload'', JStr ''schema'')])])]) []
     = Inr [RouterPost (JObj [(''method'', JStr ''POST''),
        (''config'', JObj [(''validate'',
            JObj [(''payload'', JStr ''schema''), (''body'', JStr ''schema'')])]),
        (''validate'', JObj [(''payload'', JStr ''schema''), (''body'', JStr ''schema'')])])]"
    by code_simp
  have b: "route (JObj [(''method'', JStr ''GET'')]) []
     = Inr [RouterGet (JObj [(''method'', JStr ''GET''), (''validate'', JBool False)])]"
    by code_simp
  show ?thesis
    using route_assigns_validate [OF a] route_assigns_validate [OF b] a b by simp
qed

text \<open>
  The claim as stated reads the configuration from \<^verbatim>\<open>options.config.validate\<close> alone.
  Options with no \<^verbatim>\<open>config\<close> but a property named \<^verbatim>\<open>config.validate\<close> are registered
  with that property's value, its payload validator copied to \<^verbatim>\<open>body\<close>, and not with
  validation disabled.
\<close>

theorem route_reads_flat_config_validate:
  "get_prop (JObj [(''method'', JStr ''GET''),
        (''config.validate'', JObj [(''payload'', JStr ''p'')])]) ''config'' = JUndefined
   \<and> route (JObj [(''method'', JStr ''GET''),
        (''config.validate'', JObj [(''payload'', JStr ''p'')])]) []
     = Inr [RouterGet (JObj [(''method'', JStr ''GET''),
        (''config.validate'', JObj [(''payload'', JStr ''p''), (''body'', JStr ''p'')]),
        (''validate'', JObj [(''payload'', JStr ''p''), (''body'', JStr ''p'')])])]"
  by code_simp

subsection \<open>Splitting strings\<close>

lemma js_includes_iff: "js_includes s sub \<longleftrightarrow> (\<exists>pre post. s = pre @ sub @ post)"
proof (induction s)
  case Nil
  then show ?case by auto
next
  case (Cons c cs)
  show ?case
  proof
    assume "js_includes (c # cs) sub"
    then consider "prefix sub (c # cs)" | "js_includes cs sub" by auto
    then show "\<exists>pre post. c # cs = pre @ sub @ post"
    proof cases
      case 1
      then obtain post where "c # cs = [] @ sub @ post" by (auto simp: prefix_def)
      then show ?thesis by blast
    next
      case 2
      then obtain pre post where "cs = pre @ sub @ post" using Cons by blast
      then have "c # cs = (c # pre) @ sub @ post" by simp
      then show ?thesis by blast
    qed
  next
    assume "\<exists>pre post. c # cs = pre @ sub @ post"
    then obtain pre post where s: "c # cs = pre @ sub @ post" by blast
    show "js_includes (c # cs) sub"
    proof (cases pre)
      case Nil
      with s have "prefix sub (c # cs)" by (simp add: prefix_def)
      then show ?thesis by simp
    next
      case (Cons p pre')
      with s have "cs = pre' @ sub @ post" by simp
      then have "js_includes cs sub" using Cons.IH by blast
      then show ?thesis by simp
    qed
  qed
qed

lemma split_at_no_occurrence:
  "sep \<noteq> [] \<Longrightarrow> \<not> js_includes s sep \<Longrightarrow> split_at sep cur s = [cur @ s]"
  by (induction s arbitrary: cur) auto

lemma prefix_within:
  assumes "prefix sep (pre @ sep @ rest)" and "pre \<noteq> []"
  shows "prefix sep (pre @ butlast sep)"
proof (cases "sep = []")
  case True
  then show ?thesis by simp
next
  case False
  have len: "length sep \<le> length (pre @ butlast sep)"
    using assms(2) False by (cases pre) auto
  from assms(1) have "sep = take (length sep) (pre @ sep @ rest)"
    by (metis append_eq_conv_conj prefix_def)
  also have "\<dots> = take (length sep) (pre @ butlast sep)"
    using len False by (cases sep rule: rev_cases) auto
  finally have "sep = take (length sep) (pre @ butlast sep)" .
  then show ?thesis by (metis take_is_prefix)
qed

lemma split_at_first:
  assumes "sep \<noteq> []" and "\<not> js_includes (pre @ butlast sep) sep"
  shows "split_at sep cur (pre @ sep @ rest) = (cur @ pre) # split_at sep [] rest"
  using assms(2)
proof (induction pre arbitrary: cur)
  case Nil
  obtain c cs where sep: "sep = c # cs" using assms(1) by (cases sep) auto
  have "split_at sep cur (sep @ rest) = cur # split_at sep [] (drop (length sep) (sep @ rest))"
    unfolding sep by simp
  then show ?case by simp
next
  case (Cons p ps)
  have np: "\<not> prefix sep ((p # ps) @ sep @ rest)"
    using Cons.prems prefix_within [of sep "p # ps" rest] by auto
  have "\<not> js_includes (ps @ butlast sep) sep" using Cons.prems by simp
  then have "split_at sep (cur @ [p]) (ps @ sep @ rest) = ((cur @ [p]) @ ps) # split_at sep [] rest"
    by (rule Cons.IH)
  then show ?case using np by simp
qed


lemma strip_key_once:
  assumes "k = pre @ ''monitoring.'' @ rest"
    and "\<not> js_includes (pre @ ''monitoring'') ''monitoring.''"
    and "\<not> js_includes rest ''monitoring.''"
  shows "strip_key k = rest"
proof -
  have inc: "js_includes k ''monitoring.''"
    using assms(1) js_includes_iff by blast
  have ne: "''monitoring.'' \<noteq> []" by simp
  have "\<not> js_includes (pre @ butlast ''monitoring.'') ''monitoring.''"
    using assms(2) by simp
  then have "split_at ''monitoring.'' [] (pre @ ''monitoring.'' @ rest) =
      ([] @ pre) # split_at ''monitoring.'' [] rest"
    by (rule split_at_first [OF ne])
  also have "split_at ''monitoring.'' [] rest = [[] @ rest]"
    using assms(3) by (intro split_at_no_occurrence) simp_all
  finally have "js_split k ''monitoring.'' = [pre, rest]"
    by (simp add: js_split_def assms(1))
  then show ?thesis using inc by (simp add: strip_key_def)
qed

lemma strip_key_twice:
  assumes "k = pre @ ''monitoring.'' @ mid @ ''monitoring.'' @ rest"
    and "\<not> js_includes (pre @ ''monitoring'') ''monitoring.''"
    and "\<not> js_includes (mid @ ''monitoring'') ''monitoring.''"
  shows "strip_key k = mid"
proof -
  have inc: "js_includes k ''monitoring.''"
    using assms(1) js_includes_iff by blast
  have ne: "''monitoring.'' \<noteq> []" by simp
  have p: "\<not> js_includes (pre @ butlast ''monitoring.'') ''monitoring.''"
    using assms(2) by simp
  have m: "\<not> js_includes (mid @ butlast ''monitoring.'') ''monitoring.''"
    using assms(3) by simp
  have "split_at ''monitoring.'' [] (pre @ ''monitoring.'' @ (mid @ ''monitoring.'' @ rest)) =
      ([] @ pre) # split_at ''monitoring.'' [] (mid @ ''monitoring.'' @ rest)"
    using p by (rule split_at_first [OF ne])
  also have "split_at ''monitoring.'' [] (mid @ ''monitoring.'' @ rest) =
      ([] @ mid) # split_at ''monitoring.'' [] rest"
    using m by (rule split_at_first [OF ne])
  finally have "js_split k ''monitoring.'' = pre # mid # split_at ''monitoring.'' [] rest"
    by (simp add: js_split_def assms(1))
  then show ?thesis using inc by (simp add: strip_key_def)
qed


lemma after_first_occurrence:
  assumes "sep \<noteq> []" and "\<not> js_includes (pre @ butlast sep) sep"
  shows "after_first sep (pre @ sep @ rest) = rest"
  using assms(2)
proof (induction pre)
  case Nil
  obtain c cs where sep: "sep = c # cs" using assms(1) by (cases sep) auto
  have "after_first sep (sep @ rest) = drop (length sep) (sep @ rest)"
    unfolding sep by simp
  then show ?case by simp
next
  case (Cons p ps)
  have np: "\<not> prefix sep ((p # ps) @ sep @ rest)"
    using Cons.prems prefix_within [of sep "p # ps" rest] by auto
  have "\<not> js_includes (ps @ butlast sep) sep" using Cons.prems by simp
  then have "after_first sep (ps @ sep @ rest) = rest" by (rule Cons.IH)
  then show ?case using np by simp
qed

lemma strip_key_single_occurrence:
  assumes "k = pre @ ''monitoring.'' @ rest"
    and "\<not> js_includes (pre @ ''monitoring'') ''monitoring.''"
    and "\<not> js_includes rest ''monitoring.''"
  shows "strip_key k = stripped_prefix k"
proof -
  have inc: "js_includes k ''monitoring.''"
    using assms(1) js_includes_iff by blast
  have ne: "''monitoring.'' \<noteq> []" by simp
  have "\<not> js_includes (pre @ butlast ''monitoring.'') ''monitoring.''"
    using assms(2) by simp
  then have "after_first ''monitoring.'' (pre @ ''monitoring.'' @ rest) = rest"
    by (rule after_first_occurrence [OF ne])
  then have "stripped_prefix k = rest"
    using inc by (simp add: stripped_prefix_def assms(1))
  then show ?thesis using strip_key_once [OF assms] by simp
qed

lemma legacy_config_get_order:
  "legacy_config_get has get config legacyConfig uuid k =
     (if has config (strip_key k) then Inr (get config (strip_key k))
      else if has legacyConfig (strip_key k) then Inr (get legacyConfig (strip_key k))
      else if strip_key k = ''server.uuid'' then Inr (JStr uuid)
      else Inl (unknown_key k))"
  by (simp add: legacy_config_get_def Let_def)

subsection \<open>C7: the legacy config wrapper\<close>

text \<open>
  C7. For the key \<^verbatim>\<open>monitoring.xpack.monitoring.enabled\<close>, stripping everything up to and
  including the first \<^verbatim>\<open>monitoring.\<close> leaves \<^verbatim>\<open>xpack.monitoring.enabled\<close>, but the key
  the wrapper looks up is \<^verbatim>\<open>xpack.\<close>, the text between the first two occurrences:
  whatever lodash answers, \<^verbatim>\<open>get\<close> returns the value found under \<^verbatim>\<open>xpack.\<close> in the
  plugin's config, else in the legacy config, and otherwise throws.
\<close>

theorem legacy_config_get_second_occurrence:
  "stripped_prefix ''monitoring.xpack.monitoring.enabled'' = ''xpack.monitoring.enabled''
   \<and> strip_key ''monitoring.xpack.monitoring.enabled'' = ''xpack.''
   \<and> legacy_config_get has get config legacyConfig uuid ''monitoring.xpack.monitoring.enabled'' =
       (if has config ''xpack.'' then Inr (get config ''xpack.'')
        else if has legacyConfig ''xpack.'' then Inr (get legacyConfig ''xpack.'')
        else Inl (unknown_key ''monitoring.xpack.monitoring.enabled''))"
proof -
  have a: "stripped_prefix ''monitoring.xpack.monitoring.enabled'' = ''xpack.monitoring.enabled''"
    by code_simp
  have b: "strip_key ''monitoring.xpack.monitoring.enabled'' = ''xpack.''"
    by code_simp
  show ?thesis
    unfolding legacy_config_get_order b using a by simp
qed

subsection \<open>The status of a thrown error\<close>

lemma derive_status_priority:
  "derive_status err =
      (if truthy (output_statusCode err) then output_statusCode err
       else if truthy (get_prop err ''statusCode'') then get_prop err ''statusCode''
       else if truthy (get_prop err ''status'') then get_prop err ''status''
       else JNum 500)"
  by (simp add: derive_status_def js_or_def)

lemma bridge_respond_cases:
  "bridge_respond isBoom boomify (Inr result) = Inr (ResOk result)"
  "bridge_respond isBoom boomify (Inl err) = handler_catch isBoom boomify err"
  by (simp_all add: bridge_respond_def)

lemma wrapError_not_boom:
  assumes "\<not> nullish err" and "\<not> isBoom err"
  shows "wrapError isBoom boomify err =
     (case boomify err (JObj [(''statusCode'',
              js_nullish_coalesce (get_prop err ''statusCode'') (JNum 500))]) of
        Inl e \<Rightarrow> Inl e
      | Inr b \<Rightarrow>
          if nullish (get_prop b ''output'') then Inl TypeError
          else Inr \<lparr>body = b,
                    headers = get_prop (get_prop b ''output'') ''headers'',
                    statusCode = get_prop (get_prop b ''output'') ''statusCode''\<rparr>)"
  using assms
  by (auto simp add: wrapError_def Let_def get_prop_nullish simp del: get_prop.simps
      split: sum.splits)

subsection \<open>C1: the response to a thrown error\<close>

text \<open>
  C1, as amended. A thrown \<^verbatim>\<open>null\<close> or \<^verbatim>\<open>undefined\<close> makes the \<^verbatim>\<open>catch\<close> block itself
  throw a TypeError. For every other thrown value the block takes the status from
  \<^verbatim>\<open>err.output.statusCode\<close>, else \<^verbatim>\<open>err.statusCode\<close>, else \<^verbatim>\<open>err.status\<close>, else 500, each
  skipped when falsy. If the error is a Boom error or the status is anything but the
  number 500, the response is \<^verbatim>\<open>res.customError\<close> with that status and the thrown error
  as body. Otherwise the error is handed to \<^verbatim>\<open>Boom.boomify\<close> with the status
  \<^verbatim>\<open>err.statusCode ?? 500\<close>: when \<^verbatim>\<open>boomify\<close> throws, the exception leaves the handler and
  there is no response; when it returns, the response is \<^verbatim>\<open>res.internalError\<close> with the
  returned error itself as body and the status and headers of its \<^verbatim>\<open>output\<close> (a
  TypeError when it has no \<^verbatim>\<open>output\<close>). In particular an error with
  \<^verbatim>\<open>output.statusCode = 403\<close> gives a 403 custom error with the error as body, and an
  error without status fields that is not a Boom error is handed to \<^verbatim>\<open>boomify\<close> with
  status 500.
\<close>

theorem bridge_error_response:
  "(nullish err \<longrightarrow> handler_catch isBoom boomify err = Inl TypeError)
   \<and> (\<not> nullish err \<longrightarrow>
        derive_status err =
          (if truthy (output_statusCode err) then output_statusCode err
           else if truthy (get_prop err ''statusCode'') then get_prop err ''statusCode''
           else if truthy (get_prop err ''status'') then get_prop err ''status''
           else JNum 500))
   \<and> (\<not> nullish err \<and> (isBoom err \<or> derive_status err \<noteq> JNum 500) \<longrightarrow>
        handler_catch isBoom boomify err =
          Inr (ResCustomError \<lparr>body = err, headers = JUndefined, statusCode = derive_status err\<rparr>))
   \<and> (\<not> nullish err \<and> \<not> isBoom err \<and> derive_status err = JNum 500 \<longrightarrow>
        (\<forall>e. boomify err (JObj [(''statusCode'',
                js_nullish_coalesce (get_prop err ''statusCode'') (JNum 500))]) = Inl e \<longrightarrow>
             handler_catch isBoom boomify err = Inl e) \<and>
        (\<forall>b. boomify err (JObj [(''statusCode'',
                js_nullish_coalesce (get_prop err ''statusCode'') (JNum 500))]) = Inr b \<longrightarrow>
             handler_catch isBoom boomify err =
               (if nullish (get_prop b ''output'') then Inl TypeError
                else Inr (ResInternalError \<lparr>body = b,
                       headers = get_prop (get_prop b ''output'') ''headers'',
                       statusCode = get_prop (get_prop b ''output'') ''statusCode''\<rparr>))))
   \<and> (get_prop (get_prop err ''output'') ''statusCode'' = JNum 403 \<longrightarrow>
        handler_catch isBoom boomify err =
          Inr (ResCustomError \<lparr>body = err, headers = JUndefined, statusCode = JNum 403\<rparr>))
   \<and> (\<not> nullish err \<and> get_prop err ''output'' = JUndefined \<and>
      get_prop err ''statusCode'' = JUndefined \<and> get_prop err ''status'' = JUndefined \<and>
      \<not> isBoom err \<longrightarrow>
        derive_status err = JNum 500 \<and>
        (\<forall>e. boomify err (JObj [(''statusCode'', JNum 500)]) = Inl e \<longrightarrow>
             handler_catch isBoom boomify err = Inl e) \<and>
        (\<forall>b. boomify err (JObj [(''statusCode'', JNum 500)]) = Inr b \<and>
             \<not> nullish (get_prop b ''output'') \<longrightarrow>
           handler_catch isBoom boomify err =
             Inr (ResInternalError \<lparr>body = b,
                    headers = get_prop (get_prop b ''output'') ''headers'',
                    statusCode = get_prop (get_prop b ''output'') ''statusCode''\<rparr>)))"
proof -
  let ?opts = "JObj [(''statusCode'',
                js_nullish_coalesce (get_prop err ''statusCode'') (JNum 500))]"
  have null: "nullish err \<longrightarrow> handler_catch isBoom boomify err = Inl TypeError"
    by (simp add: handler_catch_def)
  have custom: "\<not> nullish err \<and> (isBoom err \<or> derive_status err \<noteq> JNum 500) \<longrightarrow>
        handler_catch isBoom boomify err =
          Inr (ResCustomError \<lparr>body = err, headers = JUndefined, statusCode = derive_status err\<rparr>)"
    by (auto simp add: handler_catch_def Let_def)
  have wrapped: "handler_catch isBoom boomify err =
      (case boomify err ?opts of
         Inl e \<Rightarrow> Inl e
       | Inr b \<Rightarrow>
          if nullish (get_prop b ''output'') then Inl TypeError
          else Inr (ResInternalError \<lparr>body = b,
                    headers = get_prop (get_prop b ''output'') ''headers'',
                    statusCode = get_prop (get_prop b ''output'') ''statusCode''\<rparr>))"
    if "\<not> nullish err" "\<not> isBoom err" "derive_status err = JNum 500"
    using that wrapError_not_boom [of err isBoom boomify]
    by (simp add: handler_catch_def Let_def del: get_prop.simps split: sum.splits)
  have internal: "\<not> nullish err \<and> \<not> isBoom err \<and> derive_status err = JNum 500 \<longrightarrow>
        (\<forall>e. boomify err ?opts = Inl e \<longrightarrow> handler_catch isBoom boomify err = Inl e) \<and>
        (\<forall>b. boomify err ?opts = Inr b \<longrightarrow>
             handler_catch isBoom boomify err =
               (if nullish (get_prop b ''output'') then Inl TypeError
                else Inr (ResInternalError \<lparr>body = b,
                       headers = get_prop (get_prop b ''output'') ''headers'',
                       statusCode = get_prop (get_prop b ''output'') ''statusCode''\<rparr>)))"
    using wrapped by (simp del: get_prop.simps)
  have forbidden: "get_prop (get_prop err ''output'') ''statusCode'' = JNum 403 \<longrightarrow>
        handler_catch isBoom boomify err =
          Inr (ResCustomError \<lparr>body = err, headers = JUndefined, statusCode = JNum 403\<rparr>)"
  proof
    assume a: "get_prop (get_prop err ''output'') ''statusCode'' = JNum 403"
    then have no: "\<not> nullish (get_prop err ''output'')"
      by (cases "get_prop err ''output''") simp_all
    then have ne: "\<not> nullish err"
      by (cases err) simp_all
    from a no have "output_statusCode err = JNum 403"
      by (simp add: output_statusCode_def Let_def del: get_prop.simps)
    then have "derive_status err = JNum 403" by (simp add: derive_status_priority)
    then show "handler_catch isBoom boomify err =
          Inr (ResCustomError \<lparr>body = err, headers = JUndefined, statusCode = JNum 403\<rparr>)"
      using custom ne by simp
  qed
  have plain: "\<not> nullish err \<and> get_prop err ''output'' = JUndefined \<and>
      get_prop err ''statusCode'' = JUndefined \<and> get_prop err ''status'' = JUndefined \<and>
      \<not> isBoom err \<longrightarrow>
        derive_status err = JNum 500 \<and>
        (\<forall>e. boomify err (JObj [(''statusCode'', JNum 500)]) = Inl e \<longrightarrow>
             handler_catch isBoom boomify err = Inl e) \<and>
        (\<forall>b. boomify err (JObj [(''statusCode'', JNum 500)]) = Inr b \<and>
             \<not> nullish (get_prop b ''output'') \<longrightarrow>
           handler_catch isBoom boomify err =
             Inr (ResInternalError \<lparr>body = b,
                    headers = get_prop (get_prop b ''output'') ''headers'',
                    statusCode = get_prop (get_prop b ''output'') ''statusCode''\<rparr>))"
  proof (intro impI, elim conjE)
    assume a: "\<not> nullish err" "get_prop err ''output'' = JUndefined"
      "get_prop err ''statusCode'' = JUndefined" "get_prop err ''status'' = JUndefined"
      "\<not> isBoom err"
    have d: "derive_status err = JNum 500"
      using a by (simp add: derive_status_priority output_statusCode_def del: get_prop.simps)
    have o: "?opts = JObj [(''statusCode'', JNum 500)]"
      using a by (simp add: js_nullish_coalesce_def)
    show "derive_status err = JNum 500 \<and>
        (\<forall>e. boomify err (JObj [(''statusCode'', JNum 500)]) = Inl e \<longrightarrow>
             handler_catch isBoom boomify err = Inl e) \<and>
        (\<forall>b. boomify err (JObj [(''statusCode'', JNum 500)]) = Inr b \<and>
             \<not> nullish (get_prop b ''output'') \<longrightarrow>
           handler_catch isBoom boomify err =
             Inr (ResInternalError \<lparr>body = b,
                    headers = get_prop (get_prop b ''output'') ''headers'',
                    statusCode = get_prop (get_prop b ''output'') ''statusCode''\<rparr>))"
      using d wrapped [OF a(1) a(5) d] unfolding o by (simp del: get_prop.simps)
  qed
  show ?thesis
    using null derive_status_priority [of err] custom internal forbidden plain by blast
qed

theorem bridge_error_response_witness:
  "handler_catch boom_isBoom boom_boomify JUndefined = Inl TypeError
   \<and> handler_catch boom_isBoom boom_boomify
      (JError [(''message'', JStr ''denied''), (''isBoom'', JBool True),
               (''output'', JObj [(''statusCode'', JNum 403), (''headers'', JObj [])])])
     = Inr (ResCustomError
         \<lparr>body = JError [(''message'', JStr ''denied''), (''isBoom'', JBool True),
                  (''output'', JObj [(''statusCode'', JNum 403), (''headers'', JObj [])])],
          headers = JUndefined, statusCode = JNum 403\<rparr>)
   \<and> handler_catch boom_isBoom boom_boomify (JError [(''message'', JStr ''disk full'')])
     = Inr (ResInternalError
         \<lparr>body = JError [(''message'', JStr ''disk full''), (''isBoom'', JBool True),
                  (''output'', JObj [(''statusCode'', JNum 500), (''headers'', JObj [])])],
          headers = JObj [], statusCode = JNum 500\<rparr>)
   \<and> handler_catch boom_isBoom boom_boomify (JObj [(''message'', JStr ''disk full'')])
     = Inl (Error ''Cannot wrap non-Error object'')"
proof -
  let ?e = "JError [(''message'', JStr ''denied''), (''isBoom'', JBool True),
               (''output'', JObj [(''statusCode'', JNum 403), (''headers'', JObj [])])]"
  let ?p = "JError [(''message'', JStr ''disk full'')]"
  let ?b = "JError [(''message'', JStr ''disk full''), (''isBoom'', JBool True),
                  (''output'', JObj [(''statusCode'', JNum 500), (''headers'', JObj [])])]"
  let ?o = "JObj [(''message'', JStr ''disk full'')]"
  have u: "handler_catch boom_isBoom boom_boomify JUndefined = Inl TypeError"
    using bridge_error_response [of JUndefined boom_isBoom boom_boomify] by simp
  have h403: "get_prop (get_prop ?e ''output'') ''statusCode'' = JNum 403" by simp
  have a: "handler_catch boom_isBoom boom_boomify ?e =
      Inr (ResCustomError \<lparr>body = ?e, headers = JUndefined, statusCode = JNum 403\<rparr>)"
    using bridge_error_response [of ?e boom_isBoom boom_boomify] h403 by blast
  have hp: "\<not> nullish ?p \<and> get_prop ?p ''output'' = JUndefined \<and>
      get_prop ?p ''statusCode'' = JUndefined \<and> get_prop ?p ''status'' = JUndefined \<and>
      \<not> boom_isBoom ?p"
    by (simp add: boom_isBoom_def)
  have bp: "boom_boomify ?p (JObj [(''statusCode'', JNum 500)]) = Inr ?b \<and>
      \<not> nullish (get_prop ?b ''output'')"
    by (simp add: boom_boomify_def boom_initialize_def js_or_def)
  have "handler_catch boom_isBoom boom_boomify ?p =
      Inr (ResInternalError \<lparr>body = ?b,
             headers = get_prop (get_prop ?b ''output'') ''headers'',
             statusCode = get_prop (get_prop ?b ''output'') ''statusCode''\<rparr>)"
    using bridge_error_response [of ?p boom_isBoom boom_boomify] hp bp by blast
  then have b: "handler_catch boom_isBoom boom_boomify ?p =
      Inr (ResInternalError \<lparr>body = ?b, headers = JObj [], statusCode = JNum 500\<rparr>)"
    by simp
  have ho: "\<not> nullish ?o \<and> get_prop ?o ''output'' = JUndefined \<and>
      get_prop ?o ''statusCode'' = JUndefined \<and> get_prop ?o ''status'' = JUndefined \<and>
      \<not> boom_isBoom ?o"
    by (simp add: boom_isBoom_def)
  have bo: "boom_boomify ?o (JObj [(''statusCode'', JNum 500)]) =
      Inl (Error ''Cannot wrap non-Error object'')"
    by (simp add: boom_boomify_def)
  have c: "handler_catch boom_isBoom boom_boomify ?o = Inl (Error ''Cannot wrap non-Error object'')"
    using bridge_error_response [of ?o boom_isBoom boom_boomify] ho bo by blast
  show ?thesis using u a b c by simp
qed

text \<open>
  The claim as stated answers a recognised status other than 500 with the error and
  everything else with an opaque envelope. A Boom error of status 500 is answered with
  \<^verbatim>\<open>res.customError\<close> and the error itself as body; so is an error whose status, 42, is
  no HTTP status; a thrown text is refused by \<^verbatim>\<open>boomify\<close> and gets no response; the
  body of the internal error for a plain \<^verbatim>\<open>Error\<close> is that error, message included; and
  a thrown \<^verbatim>\<open>null\<close> gets no response either.
\<close>

theorem bridge_response_counterexamples:
  "handler_catch boom_isBoom boom_boomify
      (JError [(''message'', JStr ''connect ECONNREFUSED 10.0.0.5:9200''),
               (''isBoom'', JBool True),
               (''output'', JObj [(''statusCode'', JNum 500), (''headers'', JObj [])])])
     = Inr (ResCustomError
         \<lparr>body = JError [(''message'', JStr ''connect ECONNREFUSED 10.0.0.5:9200''),
                  (''isBoom'', JBool True),
                  (''output'', JObj [(''statusCode'', JNum 500), (''headers'', JObj [])])],
          headers = JUndefined, statusCode = JNum 500\<rparr>)
   \<and> handler_catch boom_isBoom boom_boomify
      (JError [(''message'', JStr ''odd''), (''statusCode'', JNum 42)])
     = Inr (ResCustomError
         \<lparr>body = JError [(''message'', JStr ''odd''), (''statusCode'', JNum 42)],
          headers = JUndefined, statusCode = JNum 42\<rparr>)
   \<and> handler_catch boom_isBoom boom_boomify (JStr ''oops'')
     = Inl (Error ''Cannot wrap non-Error object'')
   \<and> handler_catch boom_isBoom boom_boomify (JError [(''message'', JStr ''disk full'')])
     = Inr (ResInternalError
         \<lparr>body = JError [(''message'', JStr ''disk full''), (''isBoom'', JBool True),
                  (''output'', JObj [(''statusCode'', JNum 500), (''headers'', JObj [])])],
          headers = JObj [], statusCode = JNum 500\<rparr>)
   \<and> handler_catch boom_isBoom boom_boomify JNull = Inl TypeError"
  by code_simp

subsection \<open>Stopping the plugin\<close>

lemma stop_live:
  assumes "cluster p = Object c" and "licenseService p = Object l"
  shows "stop p = (None, p\<lparr>cluster := Object (c\<lparr>close_calls := Suc (close_calls c)\<rparr>),
                           licenseService := Object (l\<lparr>stop_calls := Suc (stop_calls l)\<rparr>)\<rparr>)"
  using assms by (simp add: stop_def)

lemma stop_times_live:
  assumes "cluster p = Object c" and "licenseService p = Object l"
  shows "stop_times n p = p\<lparr>cluster := Object (c\<lparr>close_calls := close_calls c + n\<rparr>),
                           licenseService := Object (l\<lparr>stop_calls := stop_calls l + n\<rparr>)\<rparr>"
proof (induction n)
  case 0
  then show ?case using assms by (simp add: stop_times_def)
next
  case (Suc n)
  have "stop_times (Suc n) p = snd (stop (stop_times n p))"
    by (simp add: stop_times_def)
  also have "\<dots> = snd (stop (p\<lparr>cluster := Object (c\<lparr>close_calls := close_calls c + n\<rparr>),
                           licenseService := Object (l\<lparr>stop_calls := stop_calls l + n\<rparr>)\<rparr>))"
    by (simp only: Suc.IH)
  also have "\<dots> = p\<lparr>cluster := Object (c\<lparr>close_calls := close_calls c + Suc n\<rparr>),
                           licenseService := Object (l\<lparr>stop_calls := stop_calls l + Suc n\<rparr>)\<rparr>"
    by (simp add: stop_def)
  finally show ?case .
qed

lemma plugin_setup_fields:
  "cluster (plugin_after (plugin_setup inp p)) = Object \<lparr>close_calls = 0\<rparr>"
  "licenseService (plugin_after (plugin_setup inp p)) = Object \<lparr>stop_calls = 0\<rparr>"
  "telemetryElasticsearchClient (plugin_after (plugin_setup inp p)) = telemetryElasticsearchClient p"
  "telemetrySavedObjectsService (plugin_after (plugin_setup inp p)) = telemetrySavedObjectsService p"
  by (simp_all add: plugin_setup_def Let_def)

subsection \<open>C5: what \<^verbatim>\<open>stop\<close> does\<close>

text \<open>
  C5, as amended. After \<^verbatim>\<open>setup\<close>, every call of \<^verbatim>\<open>stop()\<close> calls \<^verbatim>\<open>close()\<close> on the
  monitoring cluster client and \<^verbatim>\<open>stop()\<close> on the license service, without throwing:
  after \<open>n\<close> calls of \<^verbatim>\<open>stop()\<close> the client has seen \<open>n\<close> calls of \<^verbatim>\<open>close()\<close> and the
  license service \<open>n\<close> calls of \<^verbatim>\<open>stop()\<close>.
\<close>

theorem stop_closes_on_every_call:
  "cluster (stop_times n (plugin_after (plugin_setup inp p))) = Object \<lparr>close_calls = n\<rparr>
   \<and> licenseService (stop_times n (plugin_after (plugin_setup inp p))) = Object \<lparr>stop_calls = n\<rparr>
   \<and> fst (stop (stop_times n (plugin_after (plugin_setup inp p)))) = None"
proof -
  let ?q = "plugin_after (plugin_setup inp p)"
  have t: "stop_times n ?q = ?q\<lparr>cluster := Object (\<lparr>close_calls = 0\<rparr>\<lparr>close_calls := close_calls \<lparr>close_calls = 0\<rparr> + n\<rparr>),
                           licenseService := Object (\<lparr>stop_calls = 0\<rparr>\<lparr>stop_calls := stop_calls \<lparr>stop_calls = 0\<rparr> + n\<rparr>)\<rparr>"
    by (rule stop_times_live) (rule plugin_setup_fields)+
  show ?thesis unfolding t by (simp add: stop_def)
qed

text \<open>
  The claim as stated makes the second \<^verbatim>\<open>stop()\<close> a no-op. Two calls of \<^verbatim>\<open>stop()\<close> call
  \<^verbatim>\<open>close()\<close> twice, and the plugin after the second differs from the plugin after the
  first.
\<close>

theorem stop_twice_closes_twice:
  "cluster (stop_times 2 (plugin_after (plugin_setup
      \<lparr>has_telemetryCollectionManager = True, has_licensing = True,
       kibanaCollectionEnabled = True, max_bucket_size = JNum 10000\<rparr>
      (new_plugin :: (string, string) plugin)))) = Object \<lparr>close_calls = 2\<rparr>
   \<and> stop_times 2 (plugin_after (plugin_setup
      \<lparr>has_telemetryCollectionManager = True, has_licensing = True,
       kibanaCollectionEnabled = True, max_bucket_size = JNum 10000\<rparr>
      (new_plugin :: (string, string) plugin)))
     \<noteq> stop_times 1 (plugin_after (plugin_setup
      \<lparr>has_telemetryCollectionManager = True, has_licensing = True,
       kibanaCollectionEnabled = True, max_bucket_size = JNum 10000\<rparr>
      (new_plugin :: (string, string) plugin)))"
  by (simp add: stop_times_def stop_def plugin_setup_def new_plugin_def numeral_2_eq_2)

subsection \<open>C8: the telemetry getters\<close>

text \<open>
  C8, as amended. When a telemetry collection manager is present, \<^verbatim>\<open>setup\<close> calls
  \<^verbatim>\<open>registerMonitoringCollection\<close> with two getters that read the plugin's
  \<^verbatim>\<open>telemetryElasticsearchClient\<close> and \<^verbatim>\<open>telemetrySavedObjectsService\<close> fields each time
  they are called: on the plugin as \<^verbatim>\<open>setup\<close> leaves it they return \<^verbatim>\<open>undefined\<close>, and on
  the plugin after \<^verbatim>\<open>start\<close> they return the client and the service that \<^verbatim>\<open>start\<close>
  recorded. When no telemetry collection manager is present, \<^verbatim>\<open>setup\<close> does not call
  \<^verbatim>\<open>registerMonitoringCollection\<close>.
\<close>

theorem telemetry_getters_read_current_fields:
  "(has_telemetryCollectionManager inp \<longrightarrow>
     (\<exists>r. registered_collection (plugin_setup inp new_plugin) = Some r
       \<and> esClientGetter r (plugin_after (plugin_setup inp new_plugin)) = None
       \<and> soServiceGetter r (plugin_after (plugin_setup inp new_plugin)) = None
       \<and> (\<forall>core q. esClientGetter r (start core q) = Some (elasticsearch_client core)
                  \<and> soServiceGetter r (start core q) = Some (savedObjects core))
       \<and> (\<forall>q. esClientGetter r q = telemetryElasticsearchClient q
              \<and> soServiceGetter r q = telemetrySavedObjectsService q)))
   \<and> (\<not> has_telemetryCollectionManager inp \<longrightarrow>
     registered_collection (plugin_setup inp p) = None)"
  by (simp add: plugin_setup_def Let_def new_plugin_def start_def)

theorem telemetry_getters_read_current_fields_witness:
  "(\<exists>r. registered_collection (plugin_setup
          \<lparr>has_telemetryCollectionManager = True, has_licensing = True,
           kibanaCollectionEnabled = True, max_bucket_size = JNum 10000\<rparr>
          (new_plugin :: (string, string) plugin)) = Some r
     \<and> esClientGetter r (plugin_after (plugin_setup
          \<lparr>has_telemetryCollectionManager = True, has_licensing = True,
           kibanaCollectionEnabled = True, max_bucket_size = JNum 10000\<rparr> new_plugin)) = None
     \<and> esClientGetter r (start \<lparr>elasticsearch_client = ''es'', savedObjects = ''so''\<rparr>
          (plugin_after (plugin_setup
          \<lparr>has_telemetryCollectionManager = True, has_licensing = True,
           kibanaCollectionEnabled = True, max_bucket_size = JNum 10000\<rparr> new_plugin))) = Some ''es''
     \<and> soServiceGetter r (start \<lparr>elasticsearch_client = ''es'', savedObjects = ''so''\<rparr>
          (plugin_after (plugin_setup
          \<lparr>has_telemetryCollectionManager = True, has_licensing = True,
           kibanaCollectionEnabled = True, max_bucket_size = JNum 10000\<rparr> new_plugin))) = Some ''so'')
   \<and> registered_collection (plugin_setup
          \<lparr>has_telemetryCollectionManager = False, has_licensing = True,
           kibanaCollectionEnabled = True, max_bucket_size = JNum 10000\<rparr>
          (new_plugin :: (string, string) plugin)) = None"
proof -
  let ?inp = "\<lparr>has_telemetryCollectionManager = True, has_licensing = True,
           kibanaCollectionEnabled = True, max_bucket_size = JNum 10000\<rparr>"
  let ?off = "\<lparr>has_telemetryCollectionManager = False, has_licensing = True,
           kibanaCollectionEnabled = True, max_bucket_size = JNum 10000\<rparr>"
  have h: "has_telemetryCollectionManager ?inp" by simp
  have n: "\<not> has_telemetryCollectionManager ?off" by simp
  obtain r :: "(string, string) monitoring_collection" where r:
    "registered_collection (plugin_setup ?inp new_plugin) = Some r"
    "esClientGetter r (plugin_after (plugin_setup ?inp new_plugin)) = None"
    "\<forall>core q. esClientGetter r (start core q) = Some (elasticsearch_client core)
                \<and> soServiceGetter r (start core q) = Some (savedObjects core)"
    using telemetry_getters_read_current_fields [of ?inp] h by blast
  from r(3) have "esClientGetter r (start \<lparr>elasticsearch_client = ''es'', savedObjects = ''so''\<rparr>
          (plugin_after (plugin_setup ?inp new_plugin))) = Some ''es''"
    "soServiceGetter r (start \<lparr>elasticsearch_client = ''es'', savedObjects = ''so''\<rparr>
          (plugin_after (plugin_setup ?inp new_plugin))) = Some ''so''"
    by simp_all
  with r(1,2) have on: "\<exists>r. registered_collection (plugin_setup ?inp
          (new_plugin :: (string, string) plugin)) = Some r
     \<and> esClientGetter r (plugin_after (plugin_setup ?inp new_plugin)) = None
     \<and> esClientGetter r (start \<lparr>elasticsearch_client = ''es'', savedObjects = ''so''\<rparr>
          (plugin_after (plugin_setup ?inp new_plugin))) = Some ''es''
     \<and> soServiceGetter r (start \<lparr>elasticsearch_client = ''es'', savedObjects = ''so''\<rparr>
          (plugin_after (plugin_setup ?inp new_plugin))) = Some ''so''"
    by blast
  have off: "registered_collection (plugin_setup ?off (new_plugin :: (string, string) plugin)) = None"
    using telemetry_getters_read_current_fields [of ?off "new_plugin :: (string, string) plugin"] n
    by blast
  show ?thesis using on off by blast
qed

text \<open>
  The claim as stated has \<^verbatim>\<open>registerMonitoringCollection\<close> called at every setup. Without
  a telemetry collection manager nothing is registered.
\<close>

theorem telemetry_not_registered_without_manager:
  "registered_collection (plugin_setup
      \<lparr>has_telemetryCollectionManager = False, has_licensing = True,
       kibanaCollectionEnabled = True, max_bucket_size = JNum 10000\<rparr>
      (new_plugin :: (string, string) plugin)) = None"
  by (simp add: plugin_setup_def)

subsection \<open>The bulk uploader under a stream of licenses\<close>

lemma run_uploader_snoc:
  "run_uploader (calls @ [c]) = uploader_step (run_uploader calls) c"
  by (simp add: run_uploader_def)

lemma uploader_timer_invariant:
  "active_timers (run_uploader calls) = (if state (run_uploader calls) = Running then 1 else 0)"
proof (induction calls rule: rev_induct)
  case Nil
  then show ?case by (simp add: run_uploader_def initBulkUploader_def)
next
  case (snoc c calls)
  then show ?case by (cases c) (simp_all add: run_uploader_snoc)
qed

lemma uploader_state_last:
  "calls \<noteq> [] \<Longrightarrow> state (run_uploader calls) = (if last calls = Start then Running else Stopped)"
proof (induction calls rule: rev_induct)
  case Nil
  then show ?case by simp
next
  case (snoc c calls)
  show ?case by (cases c) (simp_all add: run_uploader_snoc)
qed

lemma uploader_step_idem: "uploader_step (uploader_step u c) c = uploader_step u c"
  by (cases c) simp_all

lemma uploader_calls_subscribed:
  assumes "kibanaCollectionEnabled inp" and "has_licensing inp"
  shows "uploader_calls (plugin_setup inp p) es = map license_subscriber es"
  using assms by (simp add: uploader_calls_def plugin_setup_def Let_def)

subsection \<open>C2: bulk upload follows the license\<close>

text \<open>
  C2. With \<^verbatim>\<open>kibana.collection.enabled\<close> true and a licensing plugin present, every
  license emission calls \<^verbatim>\<open>bulkUploader.start\<close> when the \<^verbatim>\<open>monitoring\<close> feature is
  reported available and enabled and \<^verbatim>\<open>bulkUploader.handleNotEnabled\<close> otherwise; after
  any non-empty sequence of emissions the scheduler is running exactly when the last
  emission was available and enabled; there is never more than one active timer, and
  observing the same license twice in a row leaves the uploader as observing it once.
\<close>

theorem bulk_upload_follows_license:
  assumes "kibanaCollectionEnabled inp" and "has_licensing inp"
  shows "uploader_calls (plugin_setup inp p) es =
       map (\<lambda>l. if monitoringBulkEnabled l then Start else HandleNotEnabled) es
   \<and> (monitoringBulkEnabled l \<longleftrightarrow>
        (\<exists>f. l ''monitoring'' = Some f \<and> isAvailable f \<and> isEnabled f))
   \<and> (es \<noteq> [] \<longrightarrow>
        (state (run_uploader (uploader_calls (plugin_setup inp p) es)) = Running
           \<longleftrightarrow> monitoringBulkEnabled (last es)))
   \<and> active_timers (run_uploader (uploader_calls (plugin_setup inp p) es)) \<le> 1
   \<and> run_uploader (uploader_calls (plugin_setup inp p) (es @ [l, l])) =
       run_uploader (uploader_calls (plugin_setup inp p) (es @ [l]))"
proof -
  have calls: "uploader_calls (plugin_setup inp p) xs = map license_subscriber xs" for xs
    using assms by (rule uploader_calls_subscribed)
  have a: "uploader_calls (plugin_setup inp p) es =
       map (\<lambda>l. if monitoringBulkEnabled l then Start else HandleNotEnabled) es"
    unfolding calls by (simp add: license_subscriber_def [abs_def])
  have b: "monitoringBulkEnabled l \<longleftrightarrow>
        (\<exists>f. l ''monitoring'' = Some f \<and> isAvailable f \<and> isEnabled f)"
    by (simp add: monitoringBulkEnabled_def split: option.splits)
  have c: "state (run_uploader (uploader_calls (plugin_setup inp p) es)) = Running
           \<longleftrightarrow> monitoringBulkEnabled (last es)" if "es \<noteq> []"
  proof -
    from that have "map license_subscriber es \<noteq> []" by simp
    then have "state (run_uploader (map license_subscriber es)) =
        (if last (map license_subscriber es) = Start then Running else Stopped)"
      by (rule uploader_state_last)
    then show ?thesis
      using that by (simp add: calls last_map license_subscriber_def)
  qed
  have d: "active_timers (run_uploader (uploader_calls (plugin_setup inp p) es)) \<le> 1"
    by (simp add: uploader_timer_invariant)
  have e: "run_uploader (uploader_calls (plugin_setup inp p) (es @ [l, l])) =
       run_uploader (uploader_calls (plugin_setup inp p) (es @ [l]))"
  proof -
    have "run_uploader (map license_subscriber es @ [license_subscriber l] @ [license_subscriber l]) =
        uploader_step (run_uploader (map license_subscriber es @ [license_subscriber l])) (license_subscriber l)"
      using run_uploader_snoc [of "map license_subscriber es @ [license_subscriber l]"] by simp
    also have "\<dots> = run_uploader (map license_subscriber es @ [license_subscriber l])"
      by (simp add: run_uploader_snoc uploader_step_idem)
    finally show ?thesis by (simp add: calls)
  qed
  show ?thesis using a b c d e by blast
qed

theorem bulk_upload_follows_license_witness:
  "uploader_calls (plugin_setup \<lparr>has_telemetryCollectionManager = True, has_licensing = True,
       kibanaCollectionEnabled = True, max_bucket_size = JNum 10000\<rparr>
       (new_plugin :: (string, string) plugin))
      [license_with True True, license_with True True, license_with True False, license_with True True]
     = [Start, Start, HandleNotEnabled, Start]
   \<and> state (run_uploader [Start, Start, HandleNotEnabled, Start]) = Running
   \<and> timers_started (run_uploader [Start, Start, HandleNotEnabled, Start]) = 2
   \<and> state (run_uploader [Start, Start, HandleNotEnabled]) = Stopped"
proof -
  let ?inp = "\<lparr>has_telemetryCollectionManager = True, has_licensing = True,
       kibanaCollectionEnabled = True, max_bucket_size = JNum 10000\<rparr>"
  let ?p = "new_plugin :: (string, string) plugin"
  let ?es = "[license_with True True, license_with True True, license_with True False, license_with True True]"
  have h: "kibanaCollectionEnabled ?inp" "has_licensing ?inp" by simp_all
  have en: "monitoringBulkEnabled (license_with True True)" "\<not> monitoringBulkEnabled (license_with True False)"
    by (simp_all add: monitoringBulkEnabled_def license_with_def)
  note t = bulk_upload_follows_license [OF h, of ?p ?es "license_with True True"]
  from t have c1: "uploader_calls (plugin_setup ?inp ?p) ?es =
       map (\<lambda>l. if monitoringBulkEnabled l then Start else HandleNotEnabled) ?es"
    by blast
  from t have c3: "state (run_uploader (uploader_calls (plugin_setup ?inp ?p) ?es)) = Running
      \<longleftrightarrow> monitoringBulkEnabled (last ?es)"
    by blast
  have calls: "uploader_calls (plugin_setup ?inp ?p) ?es = [Start, Start, HandleNotEnabled, Start]"
    unfolding c1 using en by simp
  have running: "state (run_uploader [Start, Start, HandleNotEnabled, Start]) = Running"
    using c3 en unfolding calls by simp
  have "timers_started (run_uploader [Start, Start, HandleNotEnabled, Start]) = 2"
    "state (run_uploader [Start, Start, HandleNotEnabled]) = Stopped"
    by (simp_all add: run_uploader_def initBulkUploader_def)
  with calls running show ?thesis by simp
qed

subsection \<open>C9: collection without license information or disabled by configuration\<close>

text \<open>
  C9. When \<^verbatim>\<open>kibana.collection.enabled\<close> is true and no licensing plugin is given,
  \<^verbatim>\<open>setup\<close> logs the warning, subscribes to nothing, and \<^verbatim>\<open>bulkUploader.start\<close> is not
  called whatever licenses are emitted. When \<^verbatim>\<open>kibana.collection.enabled\<close> is false,
  \<^verbatim>\<open>setup\<close> logs the informational message, subscribes to nothing, and no call reaches
  the bulk uploader.
\<close>

theorem collection_disabled_paths:
  "(kibanaCollectionEnabled inp \<and> \<not> has_licensing inp \<longrightarrow>
      logged (plugin_setup inp p) =
        [LogWarn ''Internal collection for Kibana monitoring is disabled due to missing license information.'']
      \<and> \<not> subscribed (plugin_setup inp p)
      \<and> Start \<notin> set (uploader_calls (plugin_setup inp p) es))
   \<and> (\<not> kibanaCollectionEnabled inp \<longrightarrow>
      logged (plugin_setup inp p) =
        [LogInfo ''Internal collection for Kibana monitoring is disabled per configuration.'']
      \<and> \<not> subscribed (plugin_setup inp p)
      \<and> uploader_calls (plugin_setup inp p) es = [])"
  by (simp add: plugin_setup_def uploader_calls_def Let_def)

theorem collection_disabled_paths_witness:
  "logged (plugin_setup \<lparr>has_telemetryCollectionManager = True, has_licensing = False,
       kibanaCollectionEnabled = True, max_bucket_size = JNum 10000\<rparr>
       (new_plugin :: (string, string) plugin)) =
     [LogWarn ''Internal collection for Kibana monitoring is disabled due to missing license information.'']
   \<and> uploader_calls (plugin_setup \<lparr>has_telemetryCollectionManager = True, has_licensing = False,
       kibanaCollectionEnabled = True, max_bucket_size = JNum 10000\<rparr>
       (new_plugin :: (string, string) plugin)) [license_with True True] = []
   \<and> logged (plugin_setup \<lparr>has_telemetryCollectionManager = True, has_licensing = True,
       kibanaCollectionEnabled = False, max_bucket_size = JNum 10000\<rparr>
       (new_plugin :: (string, string) plugin)) =
     [LogInfo ''Internal collection for Kibana monitoring is disabled per configuration.'']
   \<and> uploader_calls (plugin_setup \<lparr>has_telemetryCollectionManager = True, has_licensing = True,
       kibanaCollectionEnabled = False, max_bucket_size = JNum 10000\<rparr>
       (new_plugin :: (string, string) plugin)) [license_with True True] = []"
proof -
  let ?a = "\<lparr>has_telemetryCollectionManager = True, has_licensing = False,
       kibanaCollectionEnabled = True, max_bucket_size = JNum 10000\<rparr>"
  let ?b = "\<lparr>has_telemetryCollectionManager = True, has_licensing = True,
       kibanaCollectionEnabled = False, max_bucket_size = JNum 10000\<rparr>"
  let ?p = "new_plugin :: (string, string) plugin"
  have ha: "kibanaCollectionEnabled ?a \<and> \<not> has_licensing ?a" by simp
  have hb: "\<not> kibanaCollectionEnabled ?b" by simp
  have a: "logged (plugin_setup ?a ?p) =
      [LogWarn ''Internal collection for Kibana monitoring is disabled due to missing license information.'']"
    "\<not> subscribed (plugin_setup ?a ?p)"
    using collection_disabled_paths [of ?a ?p "[license_with True True]"] ha by blast+
  have b: "logged (plugin_setup ?b ?p) =
      [LogInfo ''Internal collection for Kibana monitoring is disabled per configuration.'']"
    "uploader_calls (plugin_setup ?b ?p) [license_with True True] = []"
    using collection_disabled_paths [of ?b ?p "[license_with True True]"] hb by blast+
  from a(2) have "uploader_calls (plugin_setup ?a ?p) [license_with True True] = []"
    by (simp add: uploader_calls_def)
  with a b show ?thesis by simp
qed

end
